theory Spec2Isabelle
  imports Complex_Main
begin

section \<open>JavaScript numbers\<close>

text \<open>
  Every \<^verbatim>\<open>number\<close> of the source is an IEEE 754 binary64 value. A finite value is kept as
  the rational it denotes; \<open>Finite 0\<close> is \<open>+0\<close> and \<open>NegZero\<close> is \<open>-0\<close>.
\<close>

datatype jsnum = NaN | PosInf | NegInf | NegZero | Finite rat

text \<open>\<open>ilog2 q\<close> is the binary exponent of a positive rational: \<open>2^k \<le> q < 2^(k+1)\<close>.\<close>

function ilog2 :: "rat \<Rightarrow> int" where
  "ilog2 q = (if q \<le> 0 then 0 else if 2 \<le> q then ilog2 (q / 2) + 1
              else if q < 1 then ilog2 (2 * q) - 1 else 0)"
  by pat_completeness auto
termination
proof (relation "measure (\<lambda>q. nat \<lceil>q\<rceil> + 2 * nat \<lceil>1 / q\<rceil>)", goal_cases)
  case 1
  show ?case by simp
next
  case (2 q)
  then have "q / 2 \<le> q - 1" by simp
  then have "\<lceil>q / 2\<rceil> \<le> \<lceil>q - 1\<rceil>" by (rule ceiling_mono)
  then have a: "\<lceil>q / 2\<rceil> < \<lceil>q\<rceil>" by simp
  have b: "\<lceil>1 / (q / 2)\<rceil> = 1" using 2 by (simp add: ceiling_eq_iff)
  have c: "\<lceil>1 / q\<rceil> = 1" using 2 by (simp add: ceiling_eq_iff)
  have d: "0 < \<lceil>q\<rceil>" using 2 by simp
  show ?case using a b c d by simp
next
  case (3 q)
  have a: "\<lceil>q\<rceil> = 1" using 3 by (simp add: ceiling_eq_iff)
  have b: "\<lceil>2 * q\<rceil> \<le> 2" using 3 by (simp add: ceiling_le_iff)
  have "1 < 1 / q" using 3 by simp
  then have c2: "2 \<le> \<lceil>1 / q\<rceil>" by (simp add: le_ceiling_iff)
  have "1 / (2 * q) = (1 / q) / 2" by simp
  also have "\<dots> \<le> of_int \<lceil>1 / q\<rceil> / 2" by (simp add: divide_right_mono)
  also have "\<dots> \<le> of_int (\<lceil>1 / q\<rceil> - 1)" using c2 by simp
  finally have "\<lceil>1 / (2 * q)\<rceil> \<le> \<lceil>1 / q\<rceil> - 1" by (simp only: ceiling_le_iff)
  then have d: "\<lceil>1 / (2 * q)\<rceil> < \<lceil>1 / q\<rceil>" by simp
  have e: "0 < \<lceil>1 / (2 * q)\<rceil>" using 3 by simp
  have "nat \<lceil>2 * q\<rceil> \<le> 2" using b by linarith
  moreover have "nat \<lceil>1 / (2 * q)\<rceil> + 1 \<le> nat \<lceil>1 / q\<rceil>" using d e by linarith
  moreover have "nat \<lceil>q\<rceil> = 1" using a by simp
  ultimately show ?case by simp
qed

declare ilog2.simps [simp del]

definition round_half_even :: "rat \<Rightarrow> int" where
  "round_half_even x = (let f = \<lfloor>x\<rfloor>; r = x - of_int f in
     if r < 1 / 2 then f else if 1 / 2 < r then f + 1 else if even f then f else f + 1)"

text \<open>
  The exponent of the unit in the last place: 53 significant bits, and never below the
  subnormal exponent \<open>-1074\<close>.
\<close>

definition expo :: "rat \<Rightarrow> int" where
  "expo q = max (ilog2 q - 52) (- 1074)"

text \<open>Round a magnitude to the nearest multiple of its unit in the last place, ties to even.\<close>

definition round_mag :: "rat \<Rightarrow> rat" where
  "round_mag q = (if q \<le> 0 then 0
     else of_int (round_half_even (q / 2 powi expo q)) * 2 powi expo q)"

definition signed_inf :: "bool \<Rightarrow> jsnum" where
  "signed_inf neg = (if neg then NegInf else PosInf)"

definition signed_zero :: "bool \<Rightarrow> jsnum" where
  "signed_zero neg = (if neg then NegZero else Finite 0)"

text \<open>
  \<open>fl neg q\<close> is the binary64 value of the real number with sign \<open>neg\<close> and magnitude \<open>q\<close>
  (roundTiesToEven): overflow gives an infinity, underflow a signed zero.
\<close>

definition fl :: "bool \<Rightarrow> rat \<Rightarrow> jsnum" where
  "fl neg q = (let r = round_mag q in
     if 2 powi 1024 \<le> r then signed_inf neg
     else if r = 0 then signed_zero neg
     else Finite (if neg then - r else r))"

text \<open>
  The finite values of the datatype that are binary64 values: those a rounding leaves
  unchanged. Every number the program reads or computes is one.
\<close>

definition is_binary64 :: "jsnum \<Rightarrow> bool" where
  "is_binary64 x = (case x of
      Finite q \<Rightarrow> round_mag \<bar>q\<bar> = \<bar>q\<bar> \<and> \<bar>q\<bar> < 2 powi 1024
    | _ \<Rightarrow> True)"

text \<open>A positive decimal literal of the source denotes the nearest binary64 value.\<close>

definition lit :: "rat \<Rightarrow> jsnum" where
  "lit q = fl False q"

definition sign_bit :: "jsnum \<Rightarrow> bool" where
  "sign_bit x = (case x of NegInf \<Rightarrow> True | NegZero \<Rightarrow> True | Finite q \<Rightarrow> q < 0 | _ \<Rightarrow> False)"

definition is_inf :: "jsnum \<Rightarrow> bool" where
  "is_inf x = (x = PosInf \<or> x = NegInf)"

definition is_zero :: "jsnum \<Rightarrow> bool" where
  "is_zero x = (x = NegZero \<or> x = Finite 0)"

definition val :: "jsnum \<Rightarrow> rat" where
  "val x = (case x of Finite q \<Rightarrow> q | _ \<Rightarrow> 0)"

definition mag :: "jsnum \<Rightarrow> rat" where
  "mag x = \<bar>val x\<bar>"

text \<open>The operators \<^verbatim>\<open>*\<close>, \<^verbatim>\<open>/\<close>, \<^verbatim>\<open>+\<close> and \<^verbatim>\<open>%\<close> on numbers (ECMAScript Number::multiply,
  Number::divide, Number::add, Number::remainder).\<close>

definition dmul :: "jsnum \<Rightarrow> jsnum \<Rightarrow> jsnum" where
  "dmul x y =
     (if x = NaN \<or> y = NaN then NaN
      else if is_inf x \<or> is_inf y then
        (if is_zero x \<or> is_zero y then NaN else signed_inf (sign_bit x \<noteq> sign_bit y))
      else fl (sign_bit x \<noteq> sign_bit y) (mag x * mag y))"

definition ddiv :: "jsnum \<Rightarrow> jsnum \<Rightarrow> jsnum" where
  "ddiv x y =
     (if x = NaN \<or> y = NaN then NaN
      else if is_inf x then (if is_inf y then NaN else signed_inf (sign_bit x \<noteq> sign_bit y))
      else if is_inf y then signed_zero (sign_bit x \<noteq> sign_bit y)
      else if is_zero y then (if is_zero x then NaN else signed_inf (sign_bit x \<noteq> sign_bit y))
      else fl (sign_bit x \<noteq> sign_bit y) (mag x / mag y))"

definition dadd :: "jsnum \<Rightarrow> jsnum \<Rightarrow> jsnum" where
  "dadd x y =
     (if x = NaN \<or> y = NaN then NaN
      else if is_inf x then (if is_inf y \<and> x \<noteq> y then NaN else x)
      else if is_inf y then y
      else let s = val x + val y in
        if s = 0 then signed_zero (sign_bit x \<and> sign_bit y) else fl (s < 0) \<bar>s\<bar>)"

definition drem :: "jsnum \<Rightarrow> jsnum \<Rightarrow> jsnum" where
  "drem n d =
     (if n = NaN \<or> d = NaN \<or> is_inf n \<or> is_zero d then NaN
      else if is_inf d \<or> is_zero n then n
      else let r = mag n - mag d * of_int \<lfloor>mag n / mag d\<rfloor> in
        if r = 0 then signed_zero (sign_bit n) else Finite (if sign_bit n then - r else r))"

text \<open>\<^verbatim>\<open>Math.ceil\<close> and \<^verbatim>\<open>Math.floor\<close>.\<close>

definition dceil :: "jsnum \<Rightarrow> jsnum" where
  "dceil x = (case x of
      Finite q \<Rightarrow> (if \<lceil>q\<rceil> = 0 then signed_zero (q < 0) else Finite (of_int \<lceil>q\<rceil>))
    | _ \<Rightarrow> x)"

definition dfloor :: "jsnum \<Rightarrow> jsnum" where
  "dfloor x = (case x of Finite q \<Rightarrow> Finite (of_int \<lfloor>q\<rfloor>) | _ \<Rightarrow> x)"

text \<open>The comparisons \<^verbatim>\<open><\<close>, \<^verbatim>\<open><=\<close>, \<^verbatim>\<open>>\<close> and \<^verbatim>\<open>===\<close>: false whenever an operand is NaN; the two
  zeros are equal.\<close>

definition dlt :: "jsnum \<Rightarrow> jsnum \<Rightarrow> bool" where
  "dlt x y =
     (if x = NaN \<or> y = NaN then False
      else if x = PosInf \<or> y = NegInf then False
      else if x = NegInf \<or> y = PosInf then True
      else val x < val y)"

definition dle :: "jsnum \<Rightarrow> jsnum \<Rightarrow> bool" where
  "dle x y = (x \<noteq> NaN \<and> y \<noteq> NaN \<and> \<not> dlt y x)"

definition dgt :: "jsnum \<Rightarrow> jsnum \<Rightarrow> bool" where
  "dgt x y = dlt y x"

definition deq :: "jsnum \<Rightarrow> jsnum \<Rightarrow> bool" where
  "deq x y = (x \<noteq> NaN \<and> y \<noteq> NaN \<and> \<not> dlt x y \<and> \<not> dlt y x)"

text \<open>\<^verbatim>\<open>Math.max\<close> and \<^verbatim>\<open>Math.min\<close> of two arguments: NaN if either is; \<open>+0\<close> is larger than \<open>-0\<close>.\<close>

definition dmax :: "jsnum \<Rightarrow> jsnum \<Rightarrow> jsnum" where
  "dmax a b =
     (if a = NaN \<or> b = NaN then NaN
      else if dlt a b then b
      else if a = NegZero \<and> b = Finite 0 then Finite 0
      else a)"

definition dmin :: "jsnum \<Rightarrow> jsnum \<Rightarrow> jsnum" where
  "dmin a b =
     (if a = NaN \<or> b = NaN then NaN
      else if dlt b a then b
      else if a = Finite 0 \<and> b = NegZero then NegZero
      else a)"

text \<open>
  \<^verbatim>\<open>JSON.parse(JSON.stringify(x))\<close> on a number: a finite value comes back unchanged, \<open>-0\<close> is
  written as \<^verbatim>\<open>0\<close>, and NaN and the infinities are written as \<^verbatim>\<open>null\<close>, which every later
  arithmetic use converts to \<open>+0\<close>.
\<close>

definition json_number :: "jsnum \<Rightarrow> jsnum" where
  "json_number x = (case x of Finite q \<Rightarrow> Finite q | _ \<Rightarrow> Finite 0)"

subsection \<open>Arrays of numbers\<close>

text \<open>Reading past the end of an array gives \<^verbatim>\<open>undefined\<close>, which arithmetic and comparisons
  convert to NaN.\<close>

definition idx :: "jsnum list \<Rightarrow> nat \<Rightarrow> jsnum" where
  "idx xs i = (if i < length xs then xs ! i else NaN)"

text \<open>A number used as a property key names an array element only when it is an integer
  from 0 to \<open>2^32 - 2\<close> (\<open>-0\<close> is the key \<^verbatim>\<open>"0"\<close>).\<close>

definition array_index :: "jsnum \<Rightarrow> nat option" where
  "array_index k = (case k of
      NegZero \<Rightarrow> Some 0
    | Finite q \<Rightarrow> (if 0 \<le> q \<and> q = of_int \<lfloor>q\<rfloor> \<and> q < 2 ^ 32 - 1 then Some (nat \<lfloor>q\<rfloor>) else None)
    | _ \<Rightarrow> None)"

definition array_get :: "jsnum list \<Rightarrow> jsnum \<Rightarrow> jsnum" where
  "array_get xs k = (case array_index k of Some i \<Rightarrow> idx xs i | None \<Rightarrow> NaN)"

text \<open>
  \<^verbatim>\<open>xs[k] = v\<close>. Writing past the end extends the array; the holes this leaves below the new
  element are skipped by \<^verbatim>\<open>reduce\<close>, the only reader of elements beyond the first two, so
  the new element is appended directly. A key that is no array index sets a property
  that nothing reads.
\<close>

definition array_set :: "jsnum list \<Rightarrow> jsnum \<Rightarrow> jsnum \<Rightarrow> jsnum list" where
  "array_set xs k v = (case array_index k of
      Some i \<Rightarrow> (if i < length xs then xs[i := v] else xs @ [v])
    | None \<Rightarrow> xs)"


section \<open>Data model\<close>

datatype dtype = fp8 | bf16 | fp32 | int8 | int4

text \<open>The operation kind is the string of the enum member; only \<^verbatim>\<open>'matmul'\<close> is declared.\<close>

type_synonym operation = string

record matinfo =
  shape :: "jsnum list"
  dtype :: dtype

text \<open>\<open>output_dtype\<close> is the field \<^verbatim>\<open>output.dtype\<close>.\<close>

record Matrix =
  id' :: string
  lhs :: matinfo
  rhs :: matinfo
  type :: operation
  output_dtype :: dtype

record MatrixBytes =
  LHSBytes :: jsnum
  RHSBytes :: jsnum
  outputBytes :: jsnum
  totalBytes :: jsnum

text \<open>A shard dimension is a number or \<^verbatim>\<open>null\<close> (\<open>None\<close>).\<close>

record ShardingConfig =
  numDevices :: jsnum
  lhsShardDim :: "jsnum option"
  rhsShardDim :: "jsnum option"

text \<open>
  The source throws \<^verbatim>\<open>Error\<close> with three messages: "Matrix with ID ... not found"
  (\<open>NotFound\<close>), "Sharding configuration required for multi-node analysis"
  (\<open>MissingConfiguration\<close>) and "Only matrix multiplication is supported currently"
  (\<open>UnsupportedOperation\<close>).
\<close>

datatype error = NotFound | MissingConfiguration | UnsupportedOperation

record NodeMetrics =
  totalFLOPs :: jsnum
  bytes :: MatrixBytes
  arithmeticIntensity :: jsnum
  peakHardwareIntensity :: jsnum
  isComputeBound :: bool
  computeTime :: jsnum
  memoryTime :: jsnum
  lowerBoundTime :: jsnum
  upperBoundTime :: jsnum

record MxuUtilization =
  lhsUtilization :: jsnum
  rhsUtilizationRows :: jsnum
  rhsUtilizationCols :: jsnum

record VmemMetrics =
  fitsInVMEM :: bool
  vmemComputeTime :: jsnum
  vmemMemoryTime :: jsnum
  vmemTotalTime :: jsnum
  vmemSpeedup :: jsnum

record TPUNodeMetrics = NodeMetrics +
  mxuUtilization :: MxuUtilization
  vmemMetrics :: VmemMetrics

record TensorCoreUtilization =
  mUtilization :: jsnum
  nUtilization :: jsnum
  kUtilization :: jsnum

record GPUNodeMetrics = NodeMetrics +
  effectiveMemoryTime :: jsnum
  tensorCoreUtilization :: TensorCoreUtilization
  smOccupancy :: jsnum
  canFitWeightsInL2 :: bool
  l2CacheBenefit :: jsnum

record 'm MultiNodeMetrics =
  perDeviceMetrics :: 'm
  communicationCost :: jsnum
  totalTime :: jsnum
  speedupOverSingleDevice :: jsnum
  shardingEfficiency :: jsnum

record 'm GPUMultiNodeMetrics = "'m MultiNodeMetrics" +
  scalingEfficiency :: jsnum

record ('s, 'm) Metrics =
  singleNode :: 's
  multiNode :: "'m option"

record RooflinePoint =
  intensity :: jsnum
  achievableFlops :: jsnum
  peakFlops :: jsnum
  memoryBound :: bool

text \<open>The fields of \<^verbatim>\<open>matrixPoint\<close> and of the roofline data that share a name with a field
  above carry a prefix.\<close>

record MatrixPoint =
  mp_intensity :: jsnum
  mp_achievableFlops :: jsnum
  isCurrentMatrix :: bool

record RooflineData =
  intensityPoints :: "RooflinePoint list"
  matrixPoint :: MatrixPoint
  rd_peakHardwareIntensity :: jsnum
  rd_peakFlops :: jsnum

section \<open>Matrix\<close>

definition calculateFLOPs :: "Matrix \<Rightarrow> error + jsnum" where
  "calculateFLOPs m =
     (if type m \<noteq> ''matmul'' then Inl UnsupportedOperation
      else
        let B = idx (shape (lhs m)) 0;
            D = idx (shape (lhs m)) 1;
            F = idx (shape (rhs m)) 1
        in Inr (dmul (dmul (dmul (Finite 2) B) D) F))"

fun bytesPerElement :: "dtype \<Rightarrow> jsnum" where
  "bytesPerElement bf16 = Finite 2"
| "bytesPerElement fp32 = Finite 4"
| "bytesPerElement int8 = Finite 1"
| "bytesPerElement int4 = Finite (1 / 2)"
| "bytesPerElement fp8 = Finite 1"

definition calculateBytes :: "Matrix \<Rightarrow> MatrixBytes" where
  "calculateBytes m =
     (let lhsBytes = dmul (foldl (\<lambda>acc d. dmul acc d) (Finite 1) (shape (lhs m)))
                          (bytesPerElement (dtype (lhs m)));
          rhsBytes = dmul (foldl (\<lambda>acc d. dmul acc d) (Finite 1) (shape (rhs m)))
                          (bytesPerElement (dtype (rhs m)));
          B = idx (shape (lhs m)) 0;
          F = idx (shape (rhs m)) 1;
          outputBytes = dmul (dmul B F) (bytesPerElement (output_dtype m))
      in \<lparr> LHSBytes = lhsBytes, RHSBytes = rhsBytes, outputBytes = outputBytes,
           totalBytes = dadd (dadd lhsBytes rhsBytes) outputBytes \<rparr>)"

definition calculateArithmeticIntensity :: "Matrix \<Rightarrow> error + jsnum" where
  "calculateArithmeticIntensity m =
     (let bytes = calculateBytes m in
      case calculateFLOPs m of
        Inl e \<Rightarrow> Inl e
      | Inr flops \<Rightarrow> Inr (ddiv flops (totalBytes bytes)))"

section \<open>Parts shared by the two hardware classes\<close>

text \<open>
  The constructor of \<^verbatim>\<open>Matrix\<close>; \<open>newId\<close> is the string the random generator produced.
\<close>

definition newMatrix :: "string \<Rightarrow> operation \<Rightarrow> matinfo \<Rightarrow> matinfo \<Rightarrow> dtype \<Rightarrow> Matrix" where
  "newMatrix newId ty l r out =
     \<lparr> id' = newId, lhs = l, rhs = r, type = ty, output_dtype = out \<rparr>"

text \<open>\<open>addMatrix\<close> appends a new matrix to the registry \<^verbatim>\<open>this.matrices\<close> and returns its
  identifier.\<close>

definition addMatrix ::
  "string \<Rightarrow> Matrix list \<Rightarrow> operation \<Rightarrow> matinfo \<Rightarrow> matinfo \<Rightarrow> dtype \<Rightarrow> string \<times> Matrix list" where
  "addMatrix newId matrices ty l r out = (newId, matrices @ [newMatrix newId ty l r out])"

text \<open>The tiling-utilization expression, which the source writes out once per axis.\<close>

definition tilingUtilization :: "jsnum \<Rightarrow> jsnum \<Rightarrow> jsnum" where
  "tilingUtilization d unit =
     (if deq (drem d unit) (Finite 0) then Finite 1
      else ddiv (ddiv d (dceil (ddiv d unit))) unit)"

text \<open>
  The sharded copy of both classes' \<^verbatim>\<open>_calculateMultiNodeMetrics\<close>: a JSON deep copy of the
  operands, then the configured dimension of each replaced by the ceiling of the original
  dimension over the device count. The copy's fresh random identifier is never read; the
  model keeps the original one.
\<close>

definition shardedOperand :: "matinfo \<Rightarrow> jsnum option \<Rightarrow> jsnum \<Rightarrow> matinfo" where
  "shardedOperand info shardDim n =
     (let copy = map json_number (shape info) in
      case shardDim of
        None \<Rightarrow> info \<lparr> shape := copy \<rparr>
      | Some k \<Rightarrow>
          info \<lparr> shape := array_set copy k (dceil (ddiv (array_get (shape info) k) n)) \<rparr>)"

definition shardedMatrix :: "Matrix \<Rightarrow> ShardingConfig \<Rightarrow> Matrix" where
  "shardedMatrix matrix shardingConfig =
     matrix \<lparr> lhs := shardedOperand (lhs matrix) (lhsShardDim shardingConfig)
                        (numDevices shardingConfig),
              rhs := shardedOperand (rhs matrix) (rhsShardDim shardingConfig)
                        (numDevices shardingConfig) \<rparr>"

text \<open>\<^verbatim>\<open>dim === v\<close> for a shard dimension that may be \<^verbatim>\<open>null\<close>.\<close>

definition shardDimIs :: "jsnum option \<Rightarrow> jsnum \<Rightarrow> bool" where
  "shardDimIs d v = (case d of None \<Rightarrow> False | Some k \<Rightarrow> deq k v)"

text \<open>The width of an output element as the communication cost takes it.\<close>

definition commOutputWidth :: "dtype \<Rightarrow> jsnum" where
  "commOutputWidth d = (if d = bf16 then Finite 2 else if d = fp32 then Finite 4 else Finite 1)"

text \<open>
  The sampling loop \<^verbatim>\<open>for (let i = -1; i <= 4; i += 0.1)\<close> of both classes'
  \<^verbatim>\<open>_generateRooflineData\<close>; \<open>pow\<close> stands for \<^verbatim>\<open>Math.pow\<close>, whose results ECMAScript leaves
  to the implementation. \<open>None\<close> is a loop that does not end.
\<close>

partial_function (option) rooflineLoop ::
  "(jsnum \<Rightarrow> jsnum \<Rightarrow> jsnum) \<Rightarrow> jsnum \<Rightarrow> jsnum \<Rightarrow> jsnum \<Rightarrow> jsnum \<Rightarrow> RooflinePoint list
     \<Rightarrow> RooflinePoint list option" where
  "rooflineLoop pow peak hbm phi i pts =
     (if dle i (Finite 4) then
        rooflineLoop pow peak hbm phi (dadd i (lit (1 / 10)))
          (pts @
            [\<lparr> intensity = pow (Finite 10) i,
               achievableFlops = dmin peak (dmul hbm (pow (Finite 10) i)),
               peakFlops = peak,
               memoryBound = dlt (pow (Finite 10) i) phi \<rparr>])
      else Some pts)"

text \<open>The values the loop variable takes while the loop runs, at most \<open>n\<close> of them.\<close>

fun loopValues :: "nat \<Rightarrow> jsnum \<Rightarrow> jsnum list" where
  "loopValues 0 i = []"
| "loopValues (Suc n) i =
     (if dle i (Finite 4) then i # loopValues n (dadd i (lit (1 / 10))) else [])"

definition generateRooflineData ::
  "(jsnum \<Rightarrow> jsnum \<Rightarrow> jsnum) \<Rightarrow> jsnum \<Rightarrow> jsnum \<Rightarrow> jsnum \<Rightarrow> jsnum \<Rightarrow> bool \<Rightarrow> RooflineData option" where
  "generateRooflineData pow peak hbm phi ai computeBound =
     (case rooflineLoop pow peak hbm phi (Finite (- 1)) [] of
        None \<Rightarrow> None
      | Some pts \<Rightarrow>
          Some \<lparr> intensityPoints = pts,
                 matrixPoint = \<lparr> mp_intensity = ai,
                                 mp_achievableFlops = (if computeBound then peak else dmul hbm ai),
                                 isCurrentMatrix = True \<rparr>,
                 rd_peakHardwareIntensity = phi,
                 rd_peakFlops = peak \<rparr>)"

section \<open>TPUv5e\<close>

text \<open>The private fields set by the constructor and never written again.\<close>

definition TPUv5e_flopsPerSecondBF16 :: jsnum where
  "TPUv5e_flopsPerSecondBF16 = Finite 197000000000000"

definition TPUv5e_flopsPerSecondINT8 :: jsnum where
  "TPUv5e_flopsPerSecondINT8 = Finite 394000000000000"

definition TPUv5e_hbmBandwidth :: jsnum where
  "TPUv5e_hbmBandwidth = Finite 810000000000"

definition TPUv5e_vmemCapacity :: jsnum where
  "TPUv5e_vmemCapacity = Finite 128000000"

definition TPUv5e_vmemBandwidth :: jsnum where
  "TPUv5e_vmemBandwidth = Finite 17800000000000"

definition TPUv5e_iciBidiBandwidth :: jsnum where
  "TPUv5e_iciBidiBandwidth = Finite 90000000000"

definition TPUv5e_mxuDimensions :: "jsnum list" where
  "TPUv5e_mxuDimensions = [Finite 128, Finite 128]"

definition TPUv5e_calculateSingleNodeMetrics :: "Matrix \<Rightarrow> error + TPUNodeMetrics" where
  "TPUv5e_calculateSingleNodeMetrics matrix =
     (let B = idx (shape (lhs matrix)) 0;
          D = idx (shape (lhs matrix)) 1;
          F = idx (shape (rhs matrix)) 1;
          bytes = calculateBytes matrix
      in
      case calculateFLOPs matrix of Inl e \<Rightarrow> Inl e | Inr flops \<Rightarrow>
     (case calculateArithmeticIntensity matrix of Inl e \<Rightarrow> Inl e | Inr ai \<Rightarrow>
      let flopsPerSecond = (if dtype (lhs matrix) = int8 then TPUv5e_flopsPerSecondINT8
                            else TPUv5e_flopsPerSecondBF16);
          peakHardwareIntensity = ddiv flopsPerSecond TPUv5e_hbmBandwidth;
          isComputeBound = dgt ai peakHardwareIntensity;
          computeTime = ddiv flops flopsPerSecond;
          memoryTime = ddiv (totalBytes bytes) TPUv5e_hbmBandwidth;
          mxuUtilization =
            \<lparr> lhsUtilization = tilingUtilization B (idx TPUv5e_mxuDimensions 0),
              rhsUtilizationRows = tilingUtilization D (idx TPUv5e_mxuDimensions 0),
              rhsUtilizationCols = tilingUtilization F (idx TPUv5e_mxuDimensions 1) \<rparr>;
          fitsInVMEM = dle (dadd (LHSBytes bytes) (RHSBytes bytes)) TPUv5e_vmemCapacity;
          vmemComputeTime = computeTime;
          vmemMemoryTime = ddiv (totalBytes bytes) TPUv5e_vmemBandwidth;
          vmemTotalTime = dmax vmemComputeTime vmemMemoryTime;
          vmemMetrics =
            \<lparr> fitsInVMEM = fitsInVMEM,
              vmemComputeTime = vmemComputeTime,
              vmemMemoryTime = vmemMemoryTime,
              vmemTotalTime = vmemTotalTime,
              vmemSpeedup = ddiv memoryTime vmemMemoryTime \<rparr>;
          lowerBoundTime = dmax computeTime memoryTime;
          upperBoundTime = dadd computeTime memoryTime
      in Inr \<lparr> totalFLOPs = flops,
                bytes = bytes,
                arithmeticIntensity = ai,
                peakHardwareIntensity = peakHardwareIntensity,
                isComputeBound = isComputeBound,
                computeTime = computeTime,
                memoryTime = memoryTime,
                lowerBoundTime = lowerBoundTime,
                upperBoundTime = upperBoundTime,
                mxuUtilization = mxuUtilization,
                vmemMetrics = vmemMetrics \<rparr>))"

text \<open>\<open>log2\<close> stands for \<^verbatim>\<open>Math.log2\<close>, whose results ECMAScript leaves to the implementation.\<close>

definition TPUv5e_calculateMultiNodeMetrics ::
  "(jsnum \<Rightarrow> jsnum) \<Rightarrow> Matrix \<Rightarrow> ShardingConfig \<Rightarrow> error + TPUNodeMetrics MultiNodeMetrics" where
  "TPUv5e_calculateMultiNodeMetrics log2 matrix shardingConfig =
     (case TPUv5e_calculateSingleNodeMetrics (shardedMatrix matrix shardingConfig) of
        Inl e \<Rightarrow> Inl e
      | Inr perDevice \<Rightarrow>
        let communicationCost =
              (if shardDimIs (lhsShardDim shardingConfig) (Finite 1)
                  \<or> shardDimIs (rhsShardDim shardingConfig) (Finite 0)
               then
                 let B = idx (shape (lhs matrix)) 0;
                     F = idx (shape (rhs matrix)) 1;
                     outputBytes = dmul (dmul B F) (commOutputWidth (output_dtype matrix));
                     steps = log2 (numDevices shardingConfig)
                 in ddiv (dmul (ddiv outputBytes (Finite 2)) steps) TPUv5e_iciBidiBandwidth
               else Finite 0)
        in
       (case TPUv5e_calculateSingleNodeMetrics matrix of
          Inl e \<Rightarrow> Inl e
        | Inr single \<Rightarrow>
            Inr \<lparr> perDeviceMetrics = perDevice,
                  communicationCost = communicationCost,
                  totalTime = dmax (lowerBoundTime perDevice) communicationCost,
                  speedupOverSingleDevice =
                    ddiv (lowerBoundTime single)
                         (dmax (lowerBoundTime perDevice) communicationCost),
                  shardingEfficiency =
                    ddiv (lowerBoundTime perDevice)
                         (dmax (lowerBoundTime perDevice) communicationCost) \<rparr>))"

definition TPUv5e_performanceMetrics ::
  "(jsnum \<Rightarrow> jsnum) \<Rightarrow> Matrix list \<Rightarrow> string \<Rightarrow> bool \<Rightarrow> ShardingConfig option
     \<Rightarrow> error + (TPUNodeMetrics, TPUNodeMetrics MultiNodeMetrics) Metrics" where
  "TPUv5e_performanceMetrics log2 matrices matrixId mN sC =
     (case find (\<lambda>m. id' m = matrixId) matrices of
        None \<Rightarrow> Inl NotFound
      | Some matrix \<Rightarrow>
          if mN \<and> sC = None then Inl MissingConfiguration
          else
           (case TPUv5e_calculateSingleNodeMetrics matrix of
              Inl e \<Rightarrow> Inl e
            | Inr singleNodeMetrics \<Rightarrow>
                (case (if mN then sC else None) of
                   None \<Rightarrow> Inr \<lparr> singleNode = singleNodeMetrics, multiNode = None \<rparr>
                 | Some c \<Rightarrow>
                     (case TPUv5e_calculateMultiNodeMetrics log2 matrix c of
                        Inl e \<Rightarrow> Inl e
                      | Inr multiNodeMetrics \<Rightarrow>
                          Inr \<lparr> singleNode = singleNodeMetrics,
                                multiNode = Some multiNodeMetrics \<rparr>))))"

definition TPUv5e_generateRecommendations :: "Matrix \<Rightarrow> TPUNodeMetrics \<Rightarrow> string list" where
  "TPUv5e_generateRecommendations matrix metrics =
     (let r1 = (if \<not> isComputeBound metrics then
                  [''Operation is memory-bound. Consider increasing batch size to improve arithmetic intensity.'']
                  @ (if dtype (lhs matrix) = bf16 \<and> dtype (rhs matrix) = bf16 then
                       [''Consider using int8 quantization for weights to reduce memory bandwidth requirements.'']
                     else [])
                  @ (if fitsInVMEM (vmemMetrics metrics) then
                       [''Consider using VMEM to store weights for higher bandwidth access.'']
                     else [])
                else []);
          r2 = (if dlt (lhsUtilization (mxuUtilization metrics)) (lit (9 / 10))
                   \<or> dlt (rhsUtilizationRows (mxuUtilization metrics)) (lit (9 / 10))
                   \<or> dlt (rhsUtilizationCols (mxuUtilization metrics)) (lit (9 / 10)) then
                  [''Consider padding matrix dimensions to multiples of MXU dimensions (128x128) to improve hardware utilization.'']
                else []);
          B = idx (shape (lhs matrix)) 0;
          r3 = (if dlt B (Finite 240) \<and> dtype (lhs matrix) = bf16 then
                  [''For bf16 matmul on TPU, batch size should be at least 240 to be compute-bound.'']
                else []);
          recommendations = r1 @ r2 @ r3
      in if length recommendations = 0 then [''No recommendations!''] else recommendations)"

definition TPUv5e_generateRooflineData ::
  "(jsnum \<Rightarrow> jsnum \<Rightarrow> jsnum) \<Rightarrow> Matrix \<Rightarrow> TPUNodeMetrics \<Rightarrow> RooflineData option" where
  "TPUv5e_generateRooflineData pow matrix metrics =
     (let peakFlops = (if dtype (lhs matrix) = int8 then TPUv5e_flopsPerSecondINT8
                       else TPUv5e_flopsPerSecondBF16)
      in generateRooflineData pow peakFlops TPUv5e_hbmBandwidth (peakHardwareIntensity metrics)
           (arithmeticIntensity metrics) (isComputeBound metrics))"

text \<open>\<open>analyze\<close>: \<open>None\<close> when the sampling loop does not end, else the error or the triple
  \<^verbatim>\<open>{m, r, d}\<close>.\<close>

definition TPUv5e_analyze ::
  "(jsnum \<Rightarrow> jsnum \<Rightarrow> jsnum) \<Rightarrow> Matrix list \<Rightarrow> string
     \<Rightarrow> (error + TPUNodeMetrics \<times> string list \<times> RooflineData) option" where
  "TPUv5e_analyze pow matrices matrixId =
     (case find (\<lambda>m. id' m = matrixId) matrices of
        None \<Rightarrow> Some (Inl NotFound)
      | Some matrix \<Rightarrow>
          (case TPUv5e_calculateSingleNodeMetrics matrix of
             Inl e \<Rightarrow> Some (Inl e)
           | Inr m \<Rightarrow>
               let r = TPUv5e_generateRecommendations matrix m in
              (case TPUv5e_generateRooflineData pow matrix m of
                 None \<Rightarrow> None
               | Some d \<Rightarrow> Some (Inr (m, r, d)))))"


section \<open>H100\<close>

definition H100_flopsPerSecondBF16 :: jsnum where
  "H100_flopsPerSecondBF16 = Finite 989000000000000"

definition H100_flopsPerSecondFP32 :: jsnum where
  "H100_flopsPerSecondFP32 = Finite 67000000000000"

definition H100_flopsPerSecondINT8 :: jsnum where
  "H100_flopsPerSecondINT8 = Finite 1979000000000000"

definition H100_flopsPerSecondFP8 :: jsnum where
  "H100_flopsPerSecondFP8 = Finite 3958000000000000"

definition H100_hbmBandwidth :: jsnum where
  "H100_hbmBandwidth = Finite 3350000000000"

definition H100_l2CacheSize :: jsnum where
  "H100_l2CacheSize = Finite 50000000"

definition H100_nvlinkBandwidth :: jsnum where
  "H100_nvlinkBandwidth = dmul (Finite 90000000000) (Finite 18)"

definition H100_pcieBandwidth :: jsnum where
  "H100_pcieBandwidth = Finite 80000000000"

definition H100_tensorCoreConfig :: "jsnum list" where
  "H100_tensorCoreConfig = [Finite 4, Finite 4, Finite 16]"

definition H100_smCount :: jsnum where
  "H100_smCount = Finite 132"

definition H100_maxGpusPerNode :: jsnum where
  "H100_maxGpusPerNode = Finite 256"

text \<open>The \<^verbatim>\<open>switch\<close> on the left operand's element type, written out in both
  \<^verbatim>\<open>_calculateSingleNodeMetrics\<close> and \<^verbatim>\<open>_generateRooflineData\<close>.\<close>

fun H100_flopsPerSecond :: "dtype \<Rightarrow> jsnum" where
  "H100_flopsPerSecond bf16 = H100_flopsPerSecondBF16"
| "H100_flopsPerSecond fp32 = H100_flopsPerSecondFP32"
| "H100_flopsPerSecond int8 = H100_flopsPerSecondINT8"
| "H100_flopsPerSecond fp8 = H100_flopsPerSecondFP8"
| "H100_flopsPerSecond _ = H100_flopsPerSecondBF16"

definition H100_calculateSingleNodeMetrics :: "Matrix \<Rightarrow> error + GPUNodeMetrics" where
  "H100_calculateSingleNodeMetrics matrix =
     (let B = idx (shape (lhs matrix)) 0;
          D = idx (shape (lhs matrix)) 1;
          F = idx (shape (rhs matrix)) 1;
          bytes = calculateBytes matrix
      in
      case calculateFLOPs matrix of Inl e \<Rightarrow> Inl e | Inr flops \<Rightarrow>
     (case calculateArithmeticIntensity matrix of Inl e \<Rightarrow> Inl e | Inr ai \<Rightarrow>
      let flopsPerSecond = H100_flopsPerSecond (dtype (lhs matrix));
          peakHardwareIntensity = ddiv flopsPerSecond H100_hbmBandwidth;
          isComputeBound = dgt ai peakHardwareIntensity;
          computeTime = ddiv flops flopsPerSecond;
          memoryTime = ddiv (totalBytes bytes) H100_hbmBandwidth;
          tcM = idx H100_tensorCoreConfig 0;
          tcN = idx H100_tensorCoreConfig 1;
          tcK = idx H100_tensorCoreConfig 2;
          tensorCoreUtilization =
            \<lparr> mUtilization = tilingUtilization B tcM,
              nUtilization = tilingUtilization F tcN,
              kUtilization = tilingUtilization D tcK \<rparr>;
          warpsPerSM = Finite 64;
          threadsPerWarp = Finite 32;
          threadsPerBlock = Finite 256;
          blocksPerSM = dmin (Finite 16)
                          (dfloor (ddiv (dmul warpsPerSM threadsPerWarp) threadsPerBlock));
          blocksNeeded = dmul (dceil (ddiv B (Finite 32))) (dceil (ddiv F (Finite 32)));
          smOccupancy = dmin (Finite 1) (ddiv blocksNeeded (dmul blocksPerSM H100_smCount));
          canFitWeightsInL2 = dle (RHSBytes bytes) H100_l2CacheSize;
          l2CacheBenefit = (if canFitWeightsInL2 then Finite (3 / 2) else Finite 1);
          effectiveMemoryTime = ddiv memoryTime l2CacheBenefit;
          lowerBoundTime = dmax computeTime effectiveMemoryTime;
          upperBoundTime = dadd computeTime effectiveMemoryTime
      in Inr \<lparr> totalFLOPs = flops,
                bytes = bytes,
                arithmeticIntensity = ai,
                peakHardwareIntensity = peakHardwareIntensity,
                isComputeBound = isComputeBound,
                computeTime = computeTime,
                memoryTime = memoryTime,
                lowerBoundTime = lowerBoundTime,
                upperBoundTime = upperBoundTime,
                effectiveMemoryTime = effectiveMemoryTime,
                tensorCoreUtilization = tensorCoreUtilization,
                smOccupancy = smOccupancy,
                canFitWeightsInL2 = canFitWeightsInL2,
                l2CacheBenefit = l2CacheBenefit \<rparr>))"

definition H100_calculateMultiNodeMetrics ::
  "(jsnum \<Rightarrow> jsnum) \<Rightarrow> Matrix \<Rightarrow> ShardingConfig \<Rightarrow> error + GPUNodeMetrics GPUMultiNodeMetrics" where
  "H100_calculateMultiNodeMetrics log2 matrix shardingConfig =
     (case H100_calculateSingleNodeMetrics (shardedMatrix matrix shardingConfig) of
        Inl e \<Rightarrow> Inl e
      | Inr perDevice \<Rightarrow>
        let communicationCost =
              (if shardDimIs (lhsShardDim shardingConfig) (Finite 1)
                  \<or> shardDimIs (rhsShardDim shardingConfig) (Finite 0)
               then
                 let B = idx (shape (lhs matrix)) 0;
                     F = idx (shape (rhs matrix)) 1;
                     outputBytes = dmul (dmul B F) (commOutputWidth (output_dtype matrix))
                 in
                 if dle (numDevices shardingConfig) H100_maxGpusPerNode then
                   let steps = log2 (numDevices shardingConfig)
                   in ddiv (dmul (ddiv outputBytes (Finite 2)) steps) H100_nvlinkBandwidth
                 else
                   let nodesNeeded = dceil (ddiv (numDevices shardingConfig) H100_maxGpusPerNode);
                       intraNodeSteps = log2 H100_maxGpusPerNode;
                       interNodeSteps = log2 nodesNeeded;
                       intraNodeCost = ddiv (dmul (ddiv outputBytes (Finite 2)) intraNodeSteps)
                                            H100_nvlinkBandwidth;
                       interNodeCost = ddiv (dmul (ddiv outputBytes nodesNeeded) interNodeSteps)
                                            H100_pcieBandwidth
                   in dadd intraNodeCost interNodeCost
               else Finite 0)
        in
       (case H100_calculateSingleNodeMetrics matrix of
          Inl e \<Rightarrow> Inl e
        | Inr single \<Rightarrow>
            Inr \<lparr> perDeviceMetrics = perDevice,
                  communicationCost = communicationCost,
                  totalTime = dmax (lowerBoundTime perDevice) communicationCost,
                  speedupOverSingleDevice =
                    ddiv (lowerBoundTime single)
                         (dmax (lowerBoundTime perDevice) communicationCost),
                  shardingEfficiency =
                    ddiv (lowerBoundTime perDevice)
                         (dmax (lowerBoundTime perDevice) communicationCost),
                  scalingEfficiency =
                    ddiv (ddiv (lowerBoundTime single)
                               (dmax (lowerBoundTime perDevice) communicationCost))
                         (numDevices shardingConfig) \<rparr>))"

definition H100_performanceMetrics ::
  "(jsnum \<Rightarrow> jsnum) \<Rightarrow> Matrix list \<Rightarrow> string \<Rightarrow> bool \<Rightarrow> ShardingConfig option
     \<Rightarrow> error + (GPUNodeMetrics, GPUNodeMetrics GPUMultiNodeMetrics) Metrics" where
  "H100_performanceMetrics log2 matrices matrixId multiNode' shardingConfig =
     (case find (\<lambda>m. id' m = matrixId) matrices of
        None \<Rightarrow> Inl NotFound
      | Some matrix \<Rightarrow>
          if multiNode' \<and> shardingConfig = None then Inl MissingConfiguration
          else
           (case H100_calculateSingleNodeMetrics matrix of
              Inl e \<Rightarrow> Inl e
            | Inr singleNodeMetrics \<Rightarrow>
                (case (if multiNode' then shardingConfig else None) of
                   None \<Rightarrow> Inr \<lparr> singleNode = singleNodeMetrics, multiNode = None \<rparr>
                 | Some c \<Rightarrow>
                     (case H100_calculateMultiNodeMetrics log2 matrix c of
                        Inl e \<Rightarrow> Inl e
                      | Inr multiNodeMetrics \<Rightarrow>
                          Inr \<lparr> singleNode = singleNodeMetrics,
                                multiNode = Some multiNodeMetrics \<rparr>))))"

definition H100_generateRecommendations :: "Matrix \<Rightarrow> GPUNodeMetrics \<Rightarrow> string list" where
  "H100_generateRecommendations matrix metrics =
     (let r1 = (if \<not> isComputeBound metrics then
                  [''Operation is memory-bound. Consider increasing batch size to improve arithmetic intensity.'']
                  @ (if dtype (lhs matrix) = bf16 \<and> dtype (rhs matrix) = bf16 then
                       [''Consider using FP8 precision to reduce memory bandwidth requirements and increase compute throughput.'']
                     else [])
                  @ [''Consider using structured sparsity to potentially double compute throughput.'']
                else []);
          r2 = (if dlt (mUtilization (tensorCoreUtilization metrics)) (lit (9 / 10))
                   \<or> dlt (nUtilization (tensorCoreUtilization metrics)) (lit (9 / 10))
                   \<or> dlt (kUtilization (tensorCoreUtilization metrics)) (lit (9 / 10)) then
                  [''Consider padding matrix dimensions to multiples of tensor core dimensions (4x4x16) to improve hardware utilization.'']
                else []);
          B = idx (shape (lhs matrix)) 0;
          r3 = (if dlt B (Finite 300) \<and> dtype (lhs matrix) = bf16 then
                  [''For bf16 matmul on H100, batch size should be at least 300 to be compute-bound.'']
                else []);
          r4 = (if \<not> deq (drem B (Finite 32)) (Finite 0)
                   \<or> \<not> deq (drem (idx (shape (rhs matrix)) 1) (Finite 32)) (Finite 0)
                   \<or> \<not> deq (drem (idx (shape (lhs matrix)) 1) (Finite 16)) (Finite 0) then
                  [''For optimal CUDA kernel performance, consider using dimensions that are multiples of 32 for M and N, and 16 for K.'']
                else []);
          recommendations = r1 @ r2 @ r3 @ r4
      in if length recommendations = 0 then [''No recommendations!''] else recommendations)"

definition H100_generateRooflineData ::
  "(jsnum \<Rightarrow> jsnum \<Rightarrow> jsnum) \<Rightarrow> Matrix \<Rightarrow> GPUNodeMetrics \<Rightarrow> RooflineData option" where
  "H100_generateRooflineData pow matrix metrics =
     (let flopsPerSecond = H100_flopsPerSecond (dtype (lhs matrix))
      in generateRooflineData pow flopsPerSecond H100_hbmBandwidth (peakHardwareIntensity metrics)
           (arithmeticIntensity metrics) (isComputeBound metrics))"

definition H100_analyze ::
  "(jsnum \<Rightarrow> jsnum \<Rightarrow> jsnum) \<Rightarrow> Matrix list \<Rightarrow> string
     \<Rightarrow> (error + GPUNodeMetrics \<times> string list \<times> RooflineData) option" where
  "H100_analyze pow matrices matrixId =
     (case find (\<lambda>m. id' m = matrixId) matrices of
        None \<Rightarrow> Some (Inl NotFound)
      | Some matrix \<Rightarrow>
          (case H100_calculateSingleNodeMetrics matrix of
             Inl e \<Rightarrow> Some (Inl e)
           | Inr m \<Rightarrow>
               let r = H100_generateRecommendations matrix m in
              (case H100_generateRooflineData pow matrix m of
                 None \<Rightarrow> None
               | Some d \<Rightarrow> Some (Inr (m, r, d)))))"


section \<open>The tiling utilization of the specification\<close>

text \<open>
  The tiling utilization as the specification words it: 1 when the dimension is an exact
  multiple of the unit, else \<^verbatim>\<open>dim / (ceil(dim / unit) * unit)\<close>.
\<close>

definition tilingUtilization_spec :: "rat \<Rightarrow> rat \<Rightarrow> jsnum" where
  "tilingUtilization_spec q u =
     (if of_int \<lfloor>q / u\<rfloor> = q / u then Finite 1
      else ddiv (Finite q) (dmul (dceil (ddiv (Finite q) (Finite u))) (Finite u)))"


section \<open>Error bounds\<close>

text \<open>
  Predicates for bounding the numbers the program computes. \<open>rel_close k a q\<close>: the
  number \<open>q\<close> is within \<open>k\<close> roundings of the real value \<open>a\<close>, each rounding changing a
  value by a factor of at most \<open>1 + 2^-52\<close>. \<open>in_range i j x\<close>: \<open>x\<close> is a finite number between
  \<open>2^i\<close> and \<open>2^j\<close>. \<open>bounded j x\<close>: \<open>x\<close> is a finite number between \<open>0\<close> and \<open>2^j\<close>.
\<close>

definition ee :: rat where
  "ee = 1 + 2 powi (- 52)"

definition rel_close :: "nat \<Rightarrow> rat \<Rightarrow> rat \<Rightarrow> bool" where
  "rel_close k a q \<longleftrightarrow> a \<le> q * ee ^ k \<and> q \<le> a * ee ^ k"

definition in_range :: "int \<Rightarrow> int \<Rightarrow> jsnum \<Rightarrow> bool" where
  "in_range i j x = (case x of Finite q \<Rightarrow> 2 powi i \<le> q \<and> q \<le> 2 powi j | _ \<Rightarrow> False)"

definition approx :: "nat \<Rightarrow> int \<Rightarrow> int \<Rightarrow> rat \<Rightarrow> jsnum \<Rightarrow> bool" where
  "approx k i j a x \<longleftrightarrow> in_range i j x \<and> rel_close k a (val x)"

definition bounded :: "int \<Rightarrow> jsnum \<Rightarrow> bool" where
  "bounded j x = (case x of Finite q \<Rightarrow> 0 \<le> q \<and> q \<le> 2 powi j | _ \<Rightarrow> False)"


section \<open>Sample inputs\<close>

text \<open>
  A stand-in for \<^verbatim>\<open>Math.log2\<close> at concrete inputs: the special cases ECMAScript fixes, and
  the binary exponent elsewhere, which is the exact logarithm of every power of two.
\<close>

definition log2Sample :: "jsnum \<Rightarrow> jsnum" where
  "log2Sample x = (case x of
      NaN \<Rightarrow> NaN
    | PosInf \<Rightarrow> PosInf
    | NegInf \<Rightarrow> NaN
    | NegZero \<Rightarrow> NegInf
    | Finite q \<Rightarrow> (if q < 0 then NaN else if q = 0 then NegInf else Finite (of_int (ilog2 q))))"

text \<open>The matrix the page's \<^verbatim>\<open>analyse()\<close> registers: one element type for both operands and
  the output.\<close>

definition sampleMatrix :: "string \<Rightarrow> rat \<Rightarrow> rat \<Rightarrow> rat \<Rightarrow> dtype \<Rightarrow> Matrix" where
  "sampleMatrix newId b d f t =
     newMatrix newId ''matmul'' \<lparr> shape = [Finite b, Finite d], dtype = t \<rparr>
       \<lparr> shape = [Finite d, Finite f], dtype = t \<rparr> t"

definition sampleConfig :: "rat \<Rightarrow> jsnum option \<Rightarrow> jsnum option \<Rightarrow> ShardingConfig" where
  "sampleConfig n l r = \<lparr> numDevices = Finite n, lhsShardDim = l, rhsShardDim = r \<rparr>"


section \<open>Rounding to binary64\<close>

lemma ilog2_bounds: "0 < q \<Longrightarrow> 2 powi ilog2 q \<le> q \<and> q < 2 powi (ilog2 q + 1)"
proof (induction q rule: ilog2.induct)
  case (1 q)
  show ?case
  proof (cases "2 \<le> q")
    case True
    then have e: "ilog2 q = ilog2 (q / 2) + 1" using 1 by (simp add: ilog2.simps[of q])
    have "2 powi ilog2 (q / 2) \<le> q / 2 \<and> q / 2 < 2 powi (ilog2 (q / 2) + 1)"
      using 1 True by simp
    then show ?thesis unfolding e by (simp add: power_int_add field_simps)
  next
    case False
    show ?thesis
    proof (cases "q < 1")
      case True
      then have e: "ilog2 q = ilog2 (2 * q) - 1" using 1 False by (simp add: ilog2.simps[of q])
      have "2 powi ilog2 (2 * q) \<le> 2 * q \<and> 2 * q < 2 powi (ilog2 (2 * q) + 1)"
        using 1 True False by simp
      then show ?thesis unfolding e by (simp add: power_int_add power_int_diff field_simps)
    next
      case nl: False
      then have "ilog2 q = 0" using 1 False by (simp add: ilog2.simps[of q])
      then show ?thesis using False nl by simp
    qed
  qed
qed


lemma p2_less_iff: "((2::rat) powi a < 2 powi b) \<longleftrightarrow> a < b"
proof
  assume h: "(2::rat) powi a < 2 powi b"
  show "a < b"
  proof (rule ccontr)
    assume "\<not> a < b"
    then have "b \<le> a" by simp
    then have "(2::rat) powi b \<le> 2 powi a" by (intro power_int_increasing) simp_all
    with h show False by simp
  qed
next
  assume "a < b"
  then show "(2::rat) powi a < 2 powi b" by (intro power_int_strict_increasing) simp_all
qed

lemma p2_le_iff: "((2::rat) powi a \<le> 2 powi b) \<longleftrightarrow> a \<le> b"
  using p2_less_iff[of b a] by (simp add: not_less [symmetric])

lemma ilog2_unique:
  assumes "2 powi k \<le> q" "q < 2 powi (k + 1)"
  shows "ilog2 q = k"
proof -
  have "(0::rat) < 2 powi k" by simp
  then have q: "0 < q" using assms(1) by linarith
  note b = ilog2_bounds[OF q]
  have "(2::rat) powi k < 2 powi (ilog2 q + 1)" using assms b by linarith
  then have 1: "k < ilog2 q + 1" by (simp only: p2_less_iff) 
  have "(2::rat) powi ilog2 q < 2 powi (k + 1)" using assms b by linarith
  then have 2: "ilog2 q < k + 1" by (simp only: p2_less_iff)
  show ?thesis using 1 2 by simp
qed

lemma ilog2_mono:
  assumes "0 < x" "x \<le> y"
  shows "ilog2 x \<le> ilog2 y"
proof -
  have y: "0 < y" using assms by simp
  have "2 powi ilog2 x \<le> x" using ilog2_bounds[OF assms(1)] by simp
  also have "x \<le> y" by fact
  also have "y < 2 powi (ilog2 y + 1)" using ilog2_bounds[OF y] by simp
  finally have "ilog2 x < ilog2 y + 1" by (simp only: p2_less_iff)
  then show ?thesis by simp
qed

lemma ilog2_scale:
  assumes "0 < q"
  shows "ilog2 (q * 2 powi j) = ilog2 q + j"
proof (rule ilog2_unique)
  note b = ilog2_bounds[OF assms]
  have p: "(0::rat) < 2 powi j" by simp
  show "2 powi (ilog2 q + j) \<le> q * 2 powi j"
    using b p by (simp add: power_int_add)
  show "q * 2 powi j < 2 powi (ilog2 q + j + 1)"
    using b p by (simp add: power_int_add)
qed

lemma rhe_of_int: "round_half_even (of_int n) = n"
  by (simp add: round_half_even_def)

lemma rhe_floor: "\<lfloor>x\<rfloor> \<le> round_half_even x \<and> round_half_even x \<le> \<lfloor>x\<rfloor> + 1"
  by (simp add: round_half_even_def Let_def)

lemma rhe_mono:
  assumes "x \<le> y"
  shows "round_half_even x \<le> round_half_even y"
proof (cases "\<lfloor>x\<rfloor> = \<lfloor>y\<rfloor>")
  case True
  then show ?thesis using assms by (auto simp: round_half_even_def Let_def)
next
  case False
  then have "\<lfloor>x\<rfloor> + 1 \<le> \<lfloor>y\<rfloor>" using floor_mono[OF assms] by simp
  then show ?thesis using rhe_floor[of x] rhe_floor[of y] by linarith
qed

lemma rhe_err: "\<bar>of_int (round_half_even x) - x\<bar> \<le> 1 / 2"
proof -
  define f where "f = \<lfloor>x\<rfloor>"
  have b: "of_int f \<le> x" "x < of_int f + 1" unfolding f_def by linarith+
  have "round_half_even x = (if x - of_int f < 1 / 2 then f
      else if 1 / 2 < x - of_int f then f + 1 else if even f then f else f + 1)"
    by (simp add: round_half_even_def Let_def f_def)
  then show ?thesis using b by (auto simp: abs_if)
qed

lemma expo_mono: "0 < x \<Longrightarrow> x \<le> y \<Longrightarrow> expo x \<le> expo y"
  using ilog2_mono[of x y] by (simp add: expo_def)

lemma expo_ge: "- 1074 \<le> expo q"
  by (simp add: expo_def)

lemma scaled_upper:
  assumes "0 < q"
  shows "q / 2 powi expo q < 2 ^ 53"
proof -
  have "q < 2 powi (ilog2 q + 1)" using ilog2_bounds[OF assms] by simp
  also have "\<dots> \<le> 2 powi (expo q + 53)" by (intro power_int_increasing) (simp_all add: expo_def)
  also have "\<dots> = 2 powi expo q * 2 ^ 53" by (simp add: power_int_add)
  finally show ?thesis by (simp add: field_simps)
qed

lemma scaled_lower:
  assumes "0 < q" "- 1074 < expo q"
  shows "2 ^ 52 \<le> q / 2 powi expo q"
proof -
  have e: "expo q = ilog2 q - 52" using assms(2) by (simp add: expo_def split: if_splits)
  have "2 powi expo q * 2 ^ 52 = (2::rat) powi (ilog2 q)" by (simp add: e power_int_diff)
  also have "\<dots> \<le> q" using ilog2_bounds[OF assms(1)] by simp
  finally show ?thesis by (simp add: field_simps)
qed

lemma round_mag_nonneg: "0 \<le> round_mag q"
proof (cases "q \<le> 0")
  case True then show ?thesis by (simp add: round_mag_def)
next
  case False
  then have "0 \<le> q / 2 powi expo q" by simp
  then have "round_half_even 0 \<le> round_half_even (q / 2 powi expo q)" by (rule rhe_mono)
  then have "0 \<le> round_half_even (q / 2 powi expo q)" using rhe_of_int[of 0] by simp
  then show ?thesis using False by (simp add: round_mag_def)
qed

lemma round_mag_repr:
  assumes "0 \<le> m" "m \<le> 2 ^ 53" "- 1074 \<le> e"
  shows "round_mag (of_int m * 2 powi e) = of_int m * 2 powi e"
proof (cases "m = 0")
  case True then show ?thesis by (simp add: round_mag_def)
next
  case False
  define q :: rat where "q = of_int m * 2 powi e"
  have mpos: "0 < m" using assms False by simp
  then have q: "0 < q" by (simp add: q_def)
  have "q \<le> 2 ^ 53 * 2 powi e" using assms(2) unfolding q_def
    by (intro mult_right_mono) (simp_all flip: of_int_le_iff)     
  also have "\<dots> = 2 powi (e + 53)" by (simp add: power_int_add)
  finally have qu: "q \<le> 2 powi (e + 53)" .
  have le: "expo q \<le> e \<or> (m = 2 ^ 53 \<and> expo q = e + 1)"
  proof (cases "m = 2 ^ 53")
    case True
    then have "q = 2 powi (e + 53)" by (simp add: q_def power_int_add)
    then have "ilog2 q = e + 53" by (intro ilog2_unique) (simp_all add: p2_less_iff)
    then show ?thesis using True assms(3) by (simp add: expo_def)
  next
    case False
    then have "m < 2 ^ 53" using assms(2) by simp
    then have "(of_int m :: rat) < 2 ^ 53" by (simp flip: of_int_less_iff)
    then have "q < 2 ^ 53 * 2 powi e" unfolding q_def by (intro mult_strict_right_mono) simp_all
    also have "\<dots> = 2 powi (e + 53)" by (simp add: power_int_add)
    finally have "2 powi ilog2 q < (2::rat) powi (e + 53)" using ilog2_bounds[OF q] by linarith
    then have "ilog2 q < e + 53" by (simp only: p2_less_iff)
    then show ?thesis using assms(3) by (simp add: expo_def)
  qed
  define x where "x = expo q"
  have "\<exists>k. q / 2 powi x = of_int k"
  proof (cases "x \<le> e")
    case True
    then obtain d where d: "e = x + int d" by (metis zle_iff_zadd)
    have "q = of_int m * (2 powi x * 2 ^ d)" unfolding q_def d by (simp add: power_int_add)
    then have "q / 2 powi x = of_int (m * 2 ^ d)" by simp
    then show ?thesis by blast
  next
    case False
    then have m: "m = 2 ^ 53" and ex: "x = e + 1" using le by (auto simp: x_def)
    have "q = 2 ^ 53 * 2 powi e" unfolding q_def m by simp
    also have "\<dots> = 2 ^ 52 * 2 powi x" unfolding ex by (simp add: power_int_add)
    finally have "q / 2 powi x = of_int (2 ^ 52)" by simp
    then show ?thesis by blast
  qed
  then have "\<exists>k. q / 2 powi expo q = of_int k" by (simp add: x_def)
  then obtain k where k: "q / 2 powi expo q = of_int k" ..
  have "round_mag q = of_int k * 2 powi expo q" using q by (simp add: round_mag_def k rhe_of_int)
  also have "\<dots> = q" using k by (simp add: field_simps)
  finally show ?thesis by (simp add: q_def)
qed

lemma round_mag_form:
  assumes "0 < q"
  shows "\<exists>m. 0 \<le> m \<and> m \<le> 2 ^ 53 \<and> (- 1074 < expo q \<longrightarrow> 2 ^ 52 \<le> m)
     \<and> round_mag q = of_int m * 2 powi expo q"
proof -
  define m where "m = round_half_even (q / 2 powi expo q)"
  have "q / 2 powi expo q \<le> of_int (2 ^ 53)" using scaled_upper[OF assms] by simp
  then have "m \<le> round_half_even (of_int (2 ^ 53))" unfolding m_def by (rule rhe_mono)
  then have u: "m \<le> 2 ^ 53" by (simp only: rhe_of_int)
  have "of_int 0 \<le> q / 2 powi expo q" using assms by simp
  then have "round_half_even (of_int 0) \<le> m" unfolding m_def by (rule rhe_mono)
  then have l: "0 \<le> m" by (simp only: rhe_of_int)
  have n: "2 ^ 52 \<le> m" if "- 1074 < expo q"
  proof -
    have "of_int (2 ^ 52) \<le> q / 2 powi expo q" using scaled_lower[OF assms that] by simp
    then have "round_half_even (of_int (2 ^ 52)) \<le> m" unfolding m_def by (rule rhe_mono)
    then show ?thesis by (simp only: rhe_of_int)
  qed
  have "round_mag q = of_int m * 2 powi expo q" using assms by (simp add: round_mag_def m_def)
  then show ?thesis using u l n by blast
qed

lemma round_mag_idem: "round_mag (round_mag q) = round_mag q"
proof (cases "0 < q")
  case True
  from round_mag_form[OF True] obtain m where
    m: "0 \<le> m" "m \<le> 2 ^ 53" "round_mag q = of_int m * 2 powi expo q" by blast
  show ?thesis unfolding m(3) using m(1,2) expo_ge by (rule round_mag_repr)
next
  case False
  then show ?thesis by (simp add: round_mag_def)
qed

lemma round_mag_p2: "- 1074 \<le> k \<Longrightarrow> round_mag (2 powi k) = 2 powi k"
  using round_mag_repr[of 1 k] by simp

lemma round_mag_mono:
  assumes "x \<le> y"
  shows "round_mag x \<le> round_mag y"
proof (cases "0 < x")
  case False
  then show ?thesis using round_mag_nonneg[of y] by (simp add: round_mag_def)
next
  case True
  then have y: "0 < y" using assms by simp
  from round_mag_form[OF True] obtain m where
    m: "0 \<le> m" "m \<le> 2 ^ 53" "round_mag x = of_int m * 2 powi expo x" by blast
  from round_mag_form[OF y] obtain n where
    n: "0 \<le> n" "n \<le> 2 ^ 53" "- 1074 < expo y \<longrightarrow> 2 ^ 52 \<le> n"
       "round_mag y = of_int n * 2 powi expo y" by blast
  have le: "expo x \<le> expo y" using True assms by (rule expo_mono)
  show ?thesis
  proof (cases "expo x = expo y")
    case eq: True
    have "x / 2 powi expo y \<le> y / 2 powi expo y" using assms by (simp add: divide_right_mono)
    then have "round_half_even (x / 2 powi expo y) \<le> round_half_even (y / 2 powi expo y)"
      by (rule rhe_mono)
    then show ?thesis using True y by (simp add: round_mag_def eq)
  next
    case False
    then have lt: "expo x + 1 \<le> expo y" using le by simp
    then have "- 1074 < expo y" using expo_ge[of x] by linarith
    then have n52: "2 ^ 52 \<le> n" using n(3) by simp
    have "round_mag x \<le> 2 ^ 53 * 2 powi expo x" unfolding m(3) using m(2)
      by (intro mult_right_mono) (simp_all flip: of_int_le_iff)
    also have "\<dots> = 2 ^ 52 * 2 powi (expo x + 1)" by (simp add: power_int_add)
    also have "\<dots> \<le> 2 ^ 52 * 2 powi expo y" using lt
      by (intro mult_left_mono power_int_increasing) simp_all
    also have "\<dots> \<le> of_int n * 2 powi expo y" using n52
      by (intro mult_right_mono) (simp_all flip: of_int_le_iff)
    finally show ?thesis by (simp add: n(4))
  qed
qed

lemma round_mag_err:
  assumes "2 powi (- 1022) \<le> q"
  shows "\<bar>round_mag q - q\<bar> \<le> q * 2 powi (- 53)"
proof -
  have "(0::rat) < 2 powi (- 1022)" by (rule zero_less_power_int) simp
  then have q: "0 < q" using assms by linarith
  have "- 1022 \<le> ilog2 q" using ilog2_mono[of "2 powi (- 1022)" q] assms
      ilog2_unique[of "- 1022" "2 powi (- 1022)"] by (simp add: p2_less_iff)
  then have e: "expo q = ilog2 q - 52" by (simp add: expo_def)
  define s where "s = q / 2 powi expo q"
  have p: "(0::rat) < 2 powi expo q" by simp
  have qs: "q = s * 2 powi expo q" by (simp add: s_def)
  have "round_mag q - q = (of_int (round_half_even s) - s) * 2 powi expo q"
    using q by (simp add: round_mag_def s_def algebra_simps)
  then have "\<bar>round_mag q - q\<bar> = \<bar>of_int (round_half_even s) - s\<bar> * 2 powi expo q"
    using p by (simp add: abs_mult)
  also have "\<dots> \<le> (1 / 2) * 2 powi expo q" using rhe_err[of s] p
    by (intro mult_right_mono) simp_all
  also have "\<dots> = 2 powi ilog2 q * 2 powi (- 53)" by (simp add: e power_int_diff)
  also have "\<dots> \<le> q * 2 powi (- 53)" using ilog2_bounds[OF q]
    by (intro mult_right_mono) simp_all
  finally show ?thesis .
qed

lemma round_mag_scale:
  assumes "2 powi (- 1022) \<le> q" "2 powi (- 1022) \<le> q * 2 powi j"
  shows "round_mag (q * 2 powi j) = round_mag q * 2 powi j"
proof -
  have "(0::rat) < 2 powi (- 1022)" by (rule zero_less_power_int) simp
  then have q: "0 < q" using assms by linarith
  have "(0::rat) < 2 powi j" by simp
  then have q': "0 < q * 2 powi j" using q by (rule mult_pos_pos[rotated])
  have l: "ilog2 (2 powi (- 1022)) = - 1022" by (rule ilog2_unique) (simp_all add: p2_less_iff)
  have "- 1022 \<le> ilog2 q" using ilog2_mono[of "2 powi (- 1022)" q] assms l by simp
  then have e: "expo q = ilog2 q - 52" by (simp add: expo_def)
  have "- 1022 \<le> ilog2 (q * 2 powi j)"
    using ilog2_mono[of "2 powi (- 1022)" "q * 2 powi j"] assms l by simp
  then have e': "expo (q * 2 powi j) = ilog2 q + j - 52"
    by (simp add: expo_def ilog2_scale[OF q])
  have "q * 2 powi j / 2 powi (ilog2 q + j - 52) = q / 2 powi (ilog2 q - 52)"
    by (simp add: power_int_add power_int_diff)
  then have "round_half_even (q * 2 powi j / 2 powi expo (q * 2 powi j))
      = round_half_even (q / 2 powi expo q)" by (simp only: e e')
  moreover have "\<not> q \<le> 0" "\<not> q * 2 powi j \<le> 0" using q q' by (simp_all only: not_le)
  ultimately have A: "round_mag (q * 2 powi j)
      = of_int (round_half_even (q / 2 powi expo q)) * 2 powi (ilog2 q + j - 52)"
    and B: "round_mag q = of_int (round_half_even (q / 2 powi expo q)) * 2 powi (ilog2 q - 52)"
    by (simp_all only: round_mag_def e e' if_False)
  have p: "(2::rat) powi (ilog2 q + j - 52) = 2 powi (ilog2 q - 52) * 2 powi j"
    by (simp add: power_int_add power_int_diff)
  show ?thesis unfolding A B p by (simp only: mult.assoc)
qed


section \<open>Evaluation of numbers\<close>

lemma ilog2_shift: "0 < q \<Longrightarrow> ilog2 q = ilog2 (q * 2 powi (- j)) + j"
  using ilog2_scale[of q "- j"] by simp

lemma ilog2_eval:
  "ilog2 q =
     (if q \<le> 0 then 0
      else if 2 ^ 64 \<le> q then ilog2 (q / 2 ^ 64) + 64
      else if 2 ^ 8 \<le> q then ilog2 (q / 2 ^ 8) + 8
      else if 2 \<le> q then ilog2 (q / 2) + 1
      else if q < 1 / 2 ^ 64 then ilog2 (q * 2 ^ 64) - 64
      else if q < 1 / 2 ^ 8 then ilog2 (q * 2 ^ 8) - 8
      else if q < 1 then ilog2 (2 * q) - 1
      else 0)"
proof (cases "0 < q")
  case False
  then show ?thesis by (simp add: ilog2.simps[of q])
next
  case True
  have a: "ilog2 q = ilog2 (q / 2 ^ 64) + 64" using ilog2_shift[OF True, of 64] by (simp add: power_int_minus field_simps)
  have b: "ilog2 q = ilog2 (q / 2 ^ 8) + 8" using ilog2_shift[OF True, of 8] by (simp add: power_int_minus field_simps)
  have c: "ilog2 q = ilog2 (q * 2 ^ 64) - 64" using ilog2_shift[OF True, of "- 64"] by simp
  have d: "ilog2 q = ilog2 (q * 2 ^ 8) - 8" using ilog2_shift[OF True, of "- 8"] by simp
  have s: "ilog2 q = (if 2 \<le> q then ilog2 (q / 2) + 1 else if q < 1 then ilog2 (2 * q) - 1 else 0)"
    using True by (subst ilog2.simps) simp
  have h1: "ilog2 (q / 2) + 1 = ilog2 q" if "2 \<le> q" using s that by simp
  have h2: "ilog2 (2 * q) - 1 = ilog2 q" if "\<not> 2 \<le> q" "q < 1" using s that by simp
  have h3: "ilog2 q = 0" if "\<not> 2 \<le> q" "\<not> q < 1" using s that by simp
  have n: "\<not> q \<le> 0" using True by simp
  show ?thesis
  proof (cases "2 \<le> q")
    case t: True
    then show ?thesis using n a[symmetric] b[symmetric] h1 by simp
  next
    case f: False
    show ?thesis
    proof (cases "q < 1")
      case True
      then show ?thesis using n f c[symmetric] d[symmetric] h2 by simp
    next
      case False
      then show ?thesis using n f h3 by simp
    qed
  qed
qed

lemma floor_numeral_divide: "\<lfloor>numeral a / numeral b :: rat\<rfloor> = numeral a div numeral b"
  using floor_divide_of_int_eq[of "numeral a" "numeral b", where ?'a = rat] by simp

lemma floor_one_divide: "\<lfloor>1 / numeral b :: rat\<rfloor> = 1 div numeral b"
  using floor_divide_of_int_eq[of 1 "numeral b", where ?'a = rat] by simp

lemmas num_ev = fl_def round_mag_def round_half_even_def expo_def Let_def ilog2_eval
  signed_inf_def signed_zero_def lit_def sign_bit_def is_inf_def is_zero_def val_def mag_def
  dmul_def ddiv_def dadd_def drem_def dceil_def dfloor_def dlt_def dle_def dgt_def deq_def
  dmax_def dmin_def floor_numeral_divide floor_one_divide

lemma fl_int:
  assumes "0 \<le> m" "m \<le> 2 ^ 53"
  shows "fl False (of_int m) = Finite (of_int m)"
proof -
  have r: "round_mag (of_int m) = of_int m" using round_mag_repr[of m 0] assms by simp
  have "(of_int m :: rat) \<le> of_int (2 ^ 53)" using assms(2) by (simp only: of_int_le_iff)
  also have "\<dots> < 2 powi 1024" by simp
  finally have "\<not> 2 powi 1024 \<le> (of_int m :: rat)" by simp
  then show ?thesis by (simp add: fl_def r signed_zero_def Let_def)
qed

lemma dmul_nat:
  assumes "a * b \<le> 2 ^ 53"
  shows "dmul (Finite (of_nat a)) (Finite (of_nat b)) = Finite (of_nat (a * b))"
proof -
  have "int (a * b) \<le> 2 ^ 53" using assms by (metis of_nat_le_iff of_nat_numeral of_nat_power)
  then have "fl False (of_int (int (a * b))) = Finite (of_int (int (a * b)))"
    by (intro fl_int) simp_all
  then show ?thesis
    by (simp add: dmul_def is_inf_def sign_bit_def mag_def val_def)
qed

lemma deq_Finite: "deq k (Finite q) \<longleftrightarrow> (k = Finite q \<or> (q = 0 \<and> k = NegZero))"
  by (cases k) (auto simp: deq_def dlt_def val_def)

lemma shardDimIs_Finite:
  "shardDimIs d (Finite q) \<longleftrightarrow> (d = Some (Finite q) \<or> (q = 0 \<and> d = Some NegZero))"
  by (cases d) (auto simp: shardDimIs_def deq_Finite)


section \<open>The calls succeed on a registered matrix multiplication\<close>

lemma type_shardedMatrix: "type (shardedMatrix m sc) = type m"
  by (simp add: shardedMatrix_def)

lemma calculateFLOPs_ok:
  "type m = ''matmul'' \<Longrightarrow> \<exists>v. calculateFLOPs m = Inr v"
  by (simp add: calculateFLOPs_def Let_def)

lemma TPUv5e_single_ok:
  "type m = ''matmul'' \<Longrightarrow> \<exists>s. TPUv5e_calculateSingleNodeMetrics m = Inr s"
  by (simp add: TPUv5e_calculateSingleNodeMetrics_def calculateFLOPs_def
      calculateArithmeticIntensity_def Let_def)

lemma H100_single_ok:
  "type m = ''matmul'' \<Longrightarrow> \<exists>s. H100_calculateSingleNodeMetrics m = Inr s"
  by (simp add: H100_calculateSingleNodeMetrics_def calculateFLOPs_def
      calculateArithmeticIntensity_def Let_def)

lemma TPUv5e_multi_ok:
  assumes "type m = ''matmul''"
  shows "\<exists>r. TPUv5e_calculateMultiNodeMetrics log2 m sc = Inr r"
proof -
  obtain s where s: "TPUv5e_calculateSingleNodeMetrics m = Inr s"
    using TPUv5e_single_ok[OF assms] by blast
  have "type (shardedMatrix m sc) = ''matmul''" using assms by (simp add: type_shardedMatrix)
  then obtain p where p: "TPUv5e_calculateSingleNodeMetrics (shardedMatrix m sc) = Inr p"
    using TPUv5e_single_ok by blast
  show ?thesis by (simp add: TPUv5e_calculateMultiNodeMetrics_def s p Let_def)
qed

lemma H100_multi_ok:
  assumes "type m = ''matmul''"
  shows "\<exists>r. H100_calculateMultiNodeMetrics log2 m sc = Inr r"
proof -
  obtain s where s: "H100_calculateSingleNodeMetrics m = Inr s"
    using H100_single_ok[OF assms] by blast
  have "type (shardedMatrix m sc) = ''matmul''" using assms by (simp add: type_shardedMatrix)
  then obtain p where p: "H100_calculateSingleNodeMetrics (shardedMatrix m sc) = Inr p"
    using H100_single_ok by blast
  show ?thesis by (simp add: H100_calculateMultiNodeMetrics_def s p Let_def)
qed



lemma TPUv5e_performanceMetrics_single:
  assumes "find (\<lambda>m. id' m = i) ms = Some m" "type m = ''matmul''"
  shows "\<exists>s. TPUv5e_calculateSingleNodeMetrics m = Inr s
       \<and> TPUv5e_performanceMetrics log2 ms i False sC = Inr \<lparr> singleNode = s, multiNode = None \<rparr>"
proof -
  obtain s where s: "TPUv5e_calculateSingleNodeMetrics m = Inr s"
    using TPUv5e_single_ok[OF assms(2)] by blast
  show ?thesis by (simp add: TPUv5e_performanceMetrics_def assms(1) s)
qed

lemma H100_performanceMetrics_single:
  assumes "find (\<lambda>m. id' m = i) ms = Some m" "type m = ''matmul''"
  shows "\<exists>s. H100_calculateSingleNodeMetrics m = Inr s
       \<and> H100_performanceMetrics log2 ms i False sC = Inr \<lparr> singleNode = s, multiNode = None \<rparr>"
proof -
  obtain s where s: "H100_calculateSingleNodeMetrics m = Inr s"
    using H100_single_ok[OF assms(2)] by blast
  show ?thesis by (simp add: H100_performanceMetrics_def assms(1) s)
qed

section \<open>The communication cost\<close>

lemma TPUv5e_multi_communicationCost:
  assumes "TPUv5e_calculateMultiNodeMetrics log2 m sc = Inr r"
  shows "communicationCost r =
     (if shardDimIs (lhsShardDim sc) (Finite 1) \<or> shardDimIs (rhsShardDim sc) (Finite 0)
      then ddiv (dmul (ddiv (dmul (dmul (idx (shape (lhs m)) 0) (idx (shape (rhs m)) 1))
                                  (commOutputWidth (output_dtype m))) (Finite 2))
                      (log2 (numDevices sc))) TPUv5e_iciBidiBandwidth
      else Finite 0)"
  using assms unfolding TPUv5e_calculateMultiNodeMetrics_def Let_def
  by (auto split: sum.splits)

lemma H100_multi_communicationCost:
  assumes "H100_calculateMultiNodeMetrics log2 m sc = Inr r"
  shows "communicationCost r =
     (if shardDimIs (lhsShardDim sc) (Finite 1) \<or> shardDimIs (rhsShardDim sc) (Finite 0)
      then
        if dle (numDevices sc) H100_maxGpusPerNode
        then ddiv (dmul (ddiv (dmul (dmul (idx (shape (lhs m)) 0) (idx (shape (rhs m)) 1))
                                  (commOutputWidth (output_dtype m))) (Finite 2))
                      (log2 (numDevices sc))) H100_nvlinkBandwidth
        else
          dadd (ddiv (dmul (ddiv (dmul (dmul (idx (shape (lhs m)) 0) (idx (shape (rhs m)) 1))
                                  (commOutputWidth (output_dtype m))) (Finite 2))
                      (log2 H100_maxGpusPerNode)) H100_nvlinkBandwidth)
               (ddiv (dmul (ddiv (dmul (dmul (idx (shape (lhs m)) 0) (idx (shape (rhs m)) 1))
                                  (commOutputWidth (output_dtype m)))
                                 (dceil (ddiv (numDevices sc) H100_maxGpusPerNode)))
                      (log2 (dceil (ddiv (numDevices sc) H100_maxGpusPerNode)))) H100_pcieBandwidth)
      else Finite 0)"
  using assms unfolding H100_calculateMultiNodeMetrics_def Let_def
  by (auto split: sum.splits)

lemmas sample_defs = sampleMatrix_def sampleConfig_def newMatrix_def log2Sample_def idx_def
  commOutputWidth_def


section \<open>Failures\<close>

text \<open>
  C8. On both profiles the metrics call and the analysis call fail with \<open>NotFound\<close> when
  no registered matrix has the identifier, whatever the other arguments. When the
  identifier is registered, a multi-device metrics call without a sharding configuration
  fails with \<open>MissingConfiguration\<close>. A failed call is an \<open>Inl\<close>: it carries no metrics.
\<close>

theorem lookup_and_configuration_errors:
  "(i \<notin> id' ` set ms \<longrightarrow>
      TPUv5e_performanceMetrics log2 ms i mN sC = Inl NotFound
    \<and> H100_performanceMetrics log2 ms i mN sC = Inl NotFound
    \<and> TPUv5e_analyze pow ms i = Some (Inl NotFound)
    \<and> H100_analyze pow ms i = Some (Inl NotFound))
   \<and> (i \<in> id' ` set ms \<longrightarrow>
      TPUv5e_performanceMetrics log2 ms i True None = Inl MissingConfiguration
    \<and> H100_performanceMetrics log2 ms i True None = Inl MissingConfiguration)"
proof (intro conjI impI)
  assume "i \<notin> id' ` set ms"
  then have n: "find (\<lambda>m. id' m = i) ms = None" by (auto simp: find_None_iff)
  show "TPUv5e_performanceMetrics log2 ms i mN sC = Inl NotFound"
    by (simp add: TPUv5e_performanceMetrics_def n)
  show "H100_performanceMetrics log2 ms i mN sC = Inl NotFound"
    by (simp add: H100_performanceMetrics_def n)
  show "TPUv5e_analyze pow ms i = Some (Inl NotFound)"
    by (simp add: TPUv5e_analyze_def n)
  show "H100_analyze pow ms i = Some (Inl NotFound)"
    by (simp add: H100_analyze_def n)
next
  assume "i \<in> id' ` set ms"
  then have "find (\<lambda>m. id' m = i) ms \<noteq> None" by (auto simp: find_None_iff)
  then obtain m where s: "find (\<lambda>m. id' m = i) ms = Some m" by blast
  show "TPUv5e_performanceMetrics log2 ms i True None = Inl MissingConfiguration"
    by (simp add: TPUv5e_performanceMetrics_def s)
  show "H100_performanceMetrics log2 ms i True None = Inl MissingConfiguration"
    by (simp add: H100_performanceMetrics_def s)
qed

theorem lookup_and_configuration_errors_witness:
  "''b'' \<notin> id' ` set [sampleMatrix ''a'' 256 256 256 bf16]
   \<and> TPUv5e_performanceMetrics log2Sample [sampleMatrix ''a'' 256 256 256 bf16] ''b'' False None
       = Inl NotFound
   \<and> H100_performanceMetrics log2Sample [sampleMatrix ''a'' 256 256 256 bf16] ''b'' False None
       = Inl NotFound
   \<and> TPUv5e_analyze (\<lambda>x y. NaN) [sampleMatrix ''a'' 256 256 256 bf16] ''b'' = Some (Inl NotFound)
   \<and> H100_analyze (\<lambda>x y. NaN) [sampleMatrix ''a'' 256 256 256 bf16] ''b'' = Some (Inl NotFound)
   \<and> ''a'' \<in> id' ` set [sampleMatrix ''a'' 256 256 256 bf16]
   \<and> TPUv5e_performanceMetrics log2Sample [sampleMatrix ''a'' 256 256 256 bf16] ''a'' True None
       = Inl MissingConfiguration
   \<and> H100_performanceMetrics log2Sample [sampleMatrix ''a'' 256 256 256 bf16] ''a'' True None
       = Inl MissingConfiguration"
  using lookup_and_configuration_errors[of "''b''" "[sampleMatrix ''a'' 256 256 256 bf16]"
      log2Sample False None "\<lambda>x y. NaN"]
    lookup_and_configuration_errors[of "''a''" "[sampleMatrix ''a'' 256 256 256 bf16]"
      log2Sample False None "\<lambda>x y. NaN"]
  by (simp add: sampleMatrix_def newMatrix_def)


section \<open>Fast-memory fit\<close>

lemma TPUv5e_single_fields:
  assumes "TPUv5e_calculateSingleNodeMetrics m = Inr s"
  shows "calculateFLOPs m = Inr (totalFLOPs s)"
    and "bytes s = calculateBytes m"
    and "arithmeticIntensity s = ddiv (totalFLOPs s) (totalBytes (bytes s))"
    and "computeTime s = ddiv (totalFLOPs s)
           (if dtype (lhs m) = int8 then TPUv5e_flopsPerSecondINT8 else TPUv5e_flopsPerSecondBF16)"
    and "memoryTime s = ddiv (totalBytes (bytes s)) TPUv5e_hbmBandwidth"
    and "lowerBoundTime s = dmax (computeTime s) (memoryTime s)"
    and "upperBoundTime s = dadd (computeTime s) (memoryTime s)"
    and "mxuUtilization s =
           \<lparr> lhsUtilization = tilingUtilization (idx (shape (lhs m)) 0) (Finite 128),
             rhsUtilizationRows = tilingUtilization (idx (shape (lhs m)) 1) (Finite 128),
             rhsUtilizationCols = tilingUtilization (idx (shape (rhs m)) 1) (Finite 128) \<rparr>"
    and "vmemMetrics s =
           \<lparr> fitsInVMEM = dle (dadd (LHSBytes (bytes s)) (RHSBytes (bytes s))) TPUv5e_vmemCapacity,
             vmemComputeTime = computeTime s,
             vmemMemoryTime = ddiv (totalBytes (bytes s)) TPUv5e_vmemBandwidth,
             vmemTotalTime = dmax (computeTime s) (ddiv (totalBytes (bytes s)) TPUv5e_vmemBandwidth),
             vmemSpeedup = ddiv (memoryTime s) (ddiv (totalBytes (bytes s)) TPUv5e_vmemBandwidth) \<rparr>"
  using assms unfolding TPUv5e_calculateSingleNodeMetrics_def calculateArithmeticIntensity_def Let_def
  by (auto split: sum.splits simp: TPUv5e_mxuDimensions_def idx_def)

lemma H100_single_fields:
  assumes "H100_calculateSingleNodeMetrics m = Inr s"
  shows "calculateFLOPs m = Inr (totalFLOPs s)"
    and "bytes s = calculateBytes m"
    and "arithmeticIntensity s = ddiv (totalFLOPs s) (totalBytes (bytes s))"
    and "computeTime s = ddiv (totalFLOPs s) (H100_flopsPerSecond (dtype (lhs m)))"
    and "memoryTime s = ddiv (totalBytes (bytes s)) H100_hbmBandwidth"
    and "lowerBoundTime s = dmax (computeTime s) (effectiveMemoryTime s)"
    and "upperBoundTime s = dadd (computeTime s) (effectiveMemoryTime s)"
    and "tensorCoreUtilization s =
           \<lparr> mUtilization = tilingUtilization (idx (shape (lhs m)) 0) (Finite 4),
             nUtilization = tilingUtilization (idx (shape (rhs m)) 1) (Finite 4),
             kUtilization = tilingUtilization (idx (shape (lhs m)) 1) (Finite 16) \<rparr>"
    and "canFitWeightsInL2 s = dle (RHSBytes (bytes s)) H100_l2CacheSize"
    and "l2CacheBenefit s = (if canFitWeightsInL2 s then Finite (3 / 2) else Finite 1)"
    and "effectiveMemoryTime s = ddiv (memoryTime s) (l2CacheBenefit s)"
  using assms unfolding H100_calculateSingleNodeMetrics_def calculateArithmeticIntensity_def Let_def
  by (auto split: sum.splits simp: H100_tensorCoreConfig_def idx_def)

text \<open>
  C5. For a registered matrix multiplication, the TPU metrics report \<open>fitsInVMEM\<close> exactly
  when the left operand's bytes plus the right operand's bytes (the output's are not
  added) are at most the VMEM capacity, together with the compute time, the memory time
  over the VMEM bandwidth, their maximum, and the speedup \<open>memoryTime / vmemMemoryTime\<close>;
  these are reported whether it fits or not. The H100 metrics report \<open>canFitWeightsInL2\<close>
  exactly when the right operand's bytes are at most the L2 cache size, and the effective
  memory time is the memory time divided by 1.5 when it fits and by 1 otherwise.
\<close>

theorem fast_memory_fit:
  "find (\<lambda>m. id' m = i) ms = Some m \<and> type m = ''matmul'' \<longrightarrow>
     (\<exists>s. TPUv5e_performanceMetrics log2 ms i False sC = Inr \<lparr> singleNode = s, multiNode = None \<rparr>
        \<and> bytes s = calculateBytes m
        \<and> fitsInVMEM (vmemMetrics s)
            = dle (dadd (LHSBytes (bytes s)) (RHSBytes (bytes s))) TPUv5e_vmemCapacity
        \<and> vmemComputeTime (vmemMetrics s) = computeTime s
        \<and> vmemMemoryTime (vmemMetrics s) = ddiv (totalBytes (bytes s)) TPUv5e_vmemBandwidth
        \<and> vmemTotalTime (vmemMetrics s)
            = dmax (vmemComputeTime (vmemMetrics s)) (vmemMemoryTime (vmemMetrics s))
        \<and> vmemSpeedup (vmemMetrics s) = ddiv (memoryTime s) (vmemMemoryTime (vmemMetrics s)))
   \<and> (\<exists>g. H100_performanceMetrics log2 ms i False sC = Inr \<lparr> singleNode = g, multiNode = None \<rparr>
        \<and> bytes g = calculateBytes m
        \<and> canFitWeightsInL2 g = dle (RHSBytes (bytes g)) H100_l2CacheSize
        \<and> (canFitWeightsInL2 g \<longrightarrow> l2CacheBenefit g = Finite (3 / 2)
              \<and> effectiveMemoryTime g = ddiv (memoryTime g) (Finite (3 / 2)))
        \<and> (\<not> canFitWeightsInL2 g \<longrightarrow> l2CacheBenefit g = Finite 1
              \<and> effectiveMemoryTime g = ddiv (memoryTime g) (Finite 1)))"
proof (intro impI conjI; elim conjE)
  assume f: "find (\<lambda>m. id' m = i) ms = Some m" and t: "type m = ''matmul''"
  from TPUv5e_performanceMetrics_single[OF f t, of log2 sC] obtain s where
    s: "TPUv5e_calculateSingleNodeMetrics m = Inr s"
    and res: "TPUv5e_performanceMetrics log2 ms i False sC
                = Inr \<lparr> singleNode = s, multiNode = None \<rparr>" by blast
  show "\<exists>s. TPUv5e_performanceMetrics log2 ms i False sC = Inr \<lparr> singleNode = s, multiNode = None \<rparr>
        \<and> bytes s = calculateBytes m
        \<and> fitsInVMEM (vmemMetrics s)
            = dle (dadd (LHSBytes (bytes s)) (RHSBytes (bytes s))) TPUv5e_vmemCapacity
        \<and> vmemComputeTime (vmemMetrics s) = computeTime s
        \<and> vmemMemoryTime (vmemMetrics s) = ddiv (totalBytes (bytes s)) TPUv5e_vmemBandwidth
        \<and> vmemTotalTime (vmemMetrics s)
            = dmax (vmemComputeTime (vmemMetrics s)) (vmemMemoryTime (vmemMetrics s))
        \<and> vmemSpeedup (vmemMetrics s) = ddiv (memoryTime s) (vmemMemoryTime (vmemMetrics s))"
    using res TPUv5e_single_fields(2,9)[OF s] by (intro exI[of _ s]) simp
next
  assume f: "find (\<lambda>m. id' m = i) ms = Some m" and t: "type m = ''matmul''"
  from H100_performanceMetrics_single[OF f t, of log2 sC] obtain g where
    g: "H100_calculateSingleNodeMetrics m = Inr g"
    and res: "H100_performanceMetrics log2 ms i False sC
                = Inr \<lparr> singleNode = g, multiNode = None \<rparr>" by blast
  show "\<exists>g. H100_performanceMetrics log2 ms i False sC = Inr \<lparr> singleNode = g, multiNode = None \<rparr>
        \<and> bytes g = calculateBytes m
        \<and> canFitWeightsInL2 g = dle (RHSBytes (bytes g)) H100_l2CacheSize
        \<and> (canFitWeightsInL2 g \<longrightarrow> l2CacheBenefit g = Finite (3 / 2)
              \<and> effectiveMemoryTime g = ddiv (memoryTime g) (Finite (3 / 2)))
        \<and> (\<not> canFitWeightsInL2 g \<longrightarrow> l2CacheBenefit g = Finite 1
              \<and> effectiveMemoryTime g = ddiv (memoryTime g) (Finite 1))"
    using res H100_single_fields(2,9,10,11)[OF g] by (intro exI[of _ g]) simp
qed


lemma sample_bytes:
  "calculateBytes (sampleMatrix ''a'' 256 256 256 bf16)
     = \<lparr> LHSBytes = Finite 131072, RHSBytes = Finite 131072, outputBytes = Finite 131072,
         totalBytes = Finite 393216 \<rparr>"
  by (simp add: calculateBytes_def sample_defs num_ev)

theorem fast_memory_fit_witness:
  "find (\<lambda>m. id' m = ''a'') [sampleMatrix ''a'' 256 256 256 bf16]
     = Some (sampleMatrix ''a'' 256 256 256 bf16)
   \<and> type (sampleMatrix ''a'' 256 256 256 bf16) = ''matmul''
   \<and> (\<exists>s. TPUv5e_performanceMetrics log2Sample [sampleMatrix ''a'' 256 256 256 bf16] ''a'' False None
             = Inr \<lparr> singleNode = s, multiNode = None \<rparr>
        \<and> fitsInVMEM (vmemMetrics s)
        \<and> vmemMemoryTime (vmemMetrics s) = Finite (1669132637238715 / 75557863725914323419136))
   \<and> (\<exists>g. H100_performanceMetrics log2Sample [sampleMatrix ''a'' 256 256 256 bf16] ''a'' False None
             = Inr \<lparr> singleNode = g, multiNode = None \<rparr>
        \<and> canFitWeightsInL2 g
        \<and> effectiveMemoryTime g = ddiv (memoryTime g) (Finite (3 / 2)))"
proof -
  have h: "find (\<lambda>m. id' m = ''a'') [sampleMatrix ''a'' 256 256 256 bf16]
       = Some (sampleMatrix ''a'' 256 256 256 bf16)
     \<and> type (sampleMatrix ''a'' 256 256 256 bf16) = ''matmul''"
    by (simp add: sample_defs)
  have e1: "dle (dadd (Finite 131072) (Finite 131072)) TPUv5e_vmemCapacity"
    by (simp add: num_ev TPUv5e_vmemCapacity_def)
  have e2: "ddiv (Finite 393216) TPUv5e_vmemBandwidth
      = Finite (1669132637238715 / 75557863725914323419136)"
    by (simp add: num_ev TPUv5e_vmemBandwidth_def)
  have e3: "dle (Finite 131072) H100_l2CacheSize"
    by (simp add: num_ev H100_l2CacheSize_def)
  show ?thesis
    using h fast_memory_fit[of "''a''" "[sampleMatrix ''a'' 256 256 256 bf16]"
        "sampleMatrix ''a'' 256 256 256 bf16" log2Sample None]
    by (auto simp: sample_bytes e1 e2 e3)
qed


section \<open>Element widths of the communication model\<close>

lemma calculateBytes_outputBytes:
  "outputBytes (calculateBytes m)
     = dmul (dmul (idx (shape (lhs m)) 0) (idx (shape (rhs m)) 1)) (bytesPerElement (output_dtype m))"
  by (simp add: calculateBytes_def Let_def)

text \<open>
  C10. The communication cost of both profiles takes the output bytes as
  \<open>B * F * width\<close> with the width 2 for bf16, 4 for fp32 and 1 for every other element
  type. For an int4 output the width is 1, twice the 0.5 of \<open>bytesPerElement\<close>, which
  \<open>calculateBytes\<close> uses for the same output: the cost is computed from \<open>B * F * 1\<close>
  where \<open>calculateBytes\<close> reports \<open>B * F * 0.5\<close> output bytes.
\<close>

theorem communication_output_width:
  "commOutputWidth bf16 = Finite 2 \<and> commOutputWidth fp32 = Finite 4
   \<and> commOutputWidth fp8 = Finite 1 \<and> commOutputWidth int8 = Finite 1
   \<and> commOutputWidth int4 = Finite 1
   \<and> bytesPerElement int4 = Finite (1 / 2)
   \<and> commOutputWidth int4 = dmul (Finite 2) (bytesPerElement int4)
   \<and> (TPUv5e_calculateMultiNodeMetrics log2 m sc = Inr r
        \<and> (shardDimIs (lhsShardDim sc) (Finite 1) \<or> shardDimIs (rhsShardDim sc) (Finite 0)) \<longrightarrow>
        communicationCost r =
          ddiv (dmul (ddiv (dmul (dmul (idx (shape (lhs m)) 0) (idx (shape (rhs m)) 1))
                                 (commOutputWidth (output_dtype m))) (Finite 2))
                     (log2 (numDevices sc))) TPUv5e_iciBidiBandwidth
        \<and> (output_dtype m = int4 \<longrightarrow>
             communicationCost r =
               ddiv (dmul (ddiv (dmul (dmul (idx (shape (lhs m)) 0) (idx (shape (rhs m)) 1))
                                      (Finite 1)) (Finite 2))
                          (log2 (numDevices sc))) TPUv5e_iciBidiBandwidth
             \<and> outputBytes (calculateBytes m)
                 = dmul (dmul (idx (shape (lhs m)) 0) (idx (shape (rhs m)) 1)) (Finite (1 / 2))))
   \<and> (H100_calculateMultiNodeMetrics log2 m sc = Inr r'
        \<and> (shardDimIs (lhsShardDim sc) (Finite 1) \<or> shardDimIs (rhsShardDim sc) (Finite 0)) \<longrightarrow>
        communicationCost r' =
          (if dle (numDevices sc) H100_maxGpusPerNode
           then ddiv (dmul (ddiv (dmul (dmul (idx (shape (lhs m)) 0) (idx (shape (rhs m)) 1))
                                       (commOutputWidth (output_dtype m))) (Finite 2))
                           (log2 (numDevices sc))) H100_nvlinkBandwidth
           else
             dadd (ddiv (dmul (ddiv (dmul (dmul (idx (shape (lhs m)) 0) (idx (shape (rhs m)) 1))
                                          (commOutputWidth (output_dtype m))) (Finite 2))
                              (log2 H100_maxGpusPerNode)) H100_nvlinkBandwidth)
                  (ddiv (dmul (ddiv (dmul (dmul (idx (shape (lhs m)) 0) (idx (shape (rhs m)) 1))
                                          (commOutputWidth (output_dtype m)))
                                    (dceil (ddiv (numDevices sc) H100_maxGpusPerNode)))
                              (log2 (dceil (ddiv (numDevices sc) H100_maxGpusPerNode))))
                        H100_pcieBandwidth))
        \<and> (output_dtype m = int4 \<longrightarrow>
             outputBytes (calculateBytes m)
               = dmul (dmul (idx (shape (lhs m)) 0) (idx (shape (rhs m)) 1)) (Finite (1 / 2))))"
proof -
  have w: "dmul (Finite 2) (Finite (1 / 2)) = Finite 1" by (simp add: num_ev)
  show ?thesis
    using TPUv5e_multi_communicationCost[of log2 m sc r]
      H100_multi_communicationCost[of log2 m sc r']
    by (auto simp: commOutputWidth_def w calculateBytes_outputBytes)
qed

theorem communication_output_width_witness:
  "TPUv5e_calculateMultiNodeMetrics log2Sample (sampleMatrix ''a'' 256 256 256 int4)
      (sampleConfig 4 (Some (Finite 1)) None)
     = Inr (projr (TPUv5e_calculateMultiNodeMetrics log2Sample (sampleMatrix ''a'' 256 256 256 int4)
         (sampleConfig 4 (Some (Finite 1)) None)))
   \<and> H100_calculateMultiNodeMetrics log2Sample (sampleMatrix ''a'' 256 256 256 int4)
      (sampleConfig 4 (Some (Finite 1)) None)
     = Inr (projr (H100_calculateMultiNodeMetrics log2Sample (sampleMatrix ''a'' 256 256 256 int4)
         (sampleConfig 4 (Some (Finite 1)) None)))
   \<and> shardDimIs (lhsShardDim (sampleConfig 4 (Some (Finite 1)) None)) (Finite 1)
   \<and> output_dtype (sampleMatrix ''a'' 256 256 256 int4) = int4
   \<and> communicationCost (projr (TPUv5e_calculateMultiNodeMetrics log2Sample
         (sampleMatrix ''a'' 256 256 256 int4) (sampleConfig 4 (Some (Finite 1)) None)))
       = Finite (6877444662696557 / 9444732965739290427392)
   \<and> communicationCost (projr (H100_calculateMultiNodeMetrics log2Sample
         (sampleMatrix ''a'' 256 256 256 int4) (sampleConfig 4 (Some (Finite 1)) None)))
       = Finite (3056642072309581 / 75557863725914323419136)
   \<and> outputBytes (calculateBytes (sampleMatrix ''a'' 256 256 256 int4)) = Finite 32768"
proof -
  let ?m = "sampleMatrix ''a'' 256 256 256 int4"
  let ?c = "sampleConfig 4 (Some (Finite 1)) None"
  have t: "type ?m = ''matmul''" by (simp add: sample_defs)
  obtain r where r: "TPUv5e_calculateMultiNodeMetrics log2Sample ?m ?c = Inr r"
    using TPUv5e_multi_ok[OF t] by blast
  obtain r' where r': "H100_calculateMultiNodeMetrics log2Sample ?m ?c = Inr r'"
    using H100_multi_ok[OF t] by blast
  have s: "shardDimIs (lhsShardDim ?c) (Finite 1)" by (simp add: sample_defs shardDimIs_Finite)
  have o: "output_dtype ?m = int4" by (simp add: sample_defs)
  have e1: "ddiv (dmul (ddiv (dmul (dmul (Finite 256) (Finite 256)) (Finite 1)) (Finite 2))
                (Finite 2)) TPUv5e_iciBidiBandwidth = Finite (6877444662696557 / 9444732965739290427392)"
    by (simp add: num_ev TPUv5e_iciBidiBandwidth_def)
  have e2: "ddiv (dmul (ddiv (dmul (dmul (Finite 256) (Finite 256)) (Finite 1)) (Finite 2))
                (Finite 2)) H100_nvlinkBandwidth = Finite (3056642072309581 / 75557863725914323419136)"
    by (simp add: num_ev H100_nvlinkBandwidth_def)
  have e3: "dmul (dmul (Finite 256) (Finite 256)) (Finite (1 / 2)) = Finite 32768"
    by (simp add: num_ev)
  have e4: "dle (Finite 4) H100_maxGpusPerNode" by (simp add: num_ev H100_maxGpusPerNode_def)
  have l: "log2Sample (Finite 4) = Finite 2" by (simp add: log2Sample_def ilog2.simps)
  have sh: "idx (shape (lhs ?m)) 0 = Finite 256" "idx (shape (rhs ?m)) (Suc 0) = Finite 256"
    "numDevices ?c = Finite 4"
    by (simp_all add: sample_defs)
  show ?thesis
    using communication_output_width[of log2Sample ?m ?c r r'] r r' s o
    by (simp add: sh e1 e2 e3 e4 l)
qed


section \<open>The roofline sampler\<close>

lemma lit_tenth: "lit (1 / 10) = Finite (3602879701896397 / 36028797018963968)"
  by (simp add: num_ev)

lemma loopValues_51: "length (loopValues 51 (Finite (- 1))) = 50"
  by (simp add: eval_nat_numeral lit_tenth num_ev)

lemma rooflineLoop_values:
  "length (loopValues n i) < n \<Longrightarrow>
   rooflineLoop pow peak hbm phi i acc =
     Some (acc @ map (\<lambda>i. \<lparr> intensity = pow (Finite 10) i,
                              achievableFlops = dmin peak (dmul hbm (pow (Finite 10) i)),
                              peakFlops = peak,
                              memoryBound = dlt (pow (Finite 10) i) phi \<rparr>) (loopValues n i))"
proof (induction n arbitrary: i acc)
  case 0
  then show ?case by simp
next
  case (Suc n)
  show ?case
  proof (cases "dle i (Finite 4)")
    case True
    then have "length (loopValues n (dadd i (lit (1 / 10)))) < n" using Suc.prems by simp
    from Suc.IH[OF this] show ?thesis using True
      by (subst rooflineLoop.simps) simp
  next
    case False
    then show ?thesis by (subst rooflineLoop.simps) simp
  qed
qed

lemma rooflineLoop_count:
  "\<exists>pts. rooflineLoop pow peak hbm phi (Finite (- 1)) [] = Some pts \<and> length pts = 50"
proof -
  have "length (loopValues 51 (Finite (- 1))) < 51" by (simp add: loopValues_51)
  from rooflineLoop_values[OF this, of pow peak hbm phi "[]"] show ?thesis
    by (simp add: loopValues_51)
qed

lemma generateRooflineData_count:
  "\<exists>d. generateRooflineData pow peak hbm phi ai cb = Some d \<and> length (intensityPoints d) = 50"
proof -
  obtain pts where "rooflineLoop pow peak hbm phi (Finite (- 1)) [] = Some pts" "length pts = 50"
    using rooflineLoop_count by blast
  then show ?thesis by (simp add: generateRooflineData_def)
qed

text \<open>
  C6. On both profiles the sampling loop ends and returns 50 points, not 51: the loop
  variable starts at \<open>-1\<close> and is increased by the binary64 value of \<open>0.1\<close>, and after 50
  additions it is above 4.
\<close>

theorem roofline_sample_count:
  "(\<exists>d. TPUv5e_generateRooflineData pow m s = Some d \<and> length (intensityPoints d) = 50)
   \<and> (\<exists>d. H100_generateRooflineData pow m g = Some d \<and> length (intensityPoints d) = 50)"
  using generateRooflineData_count
  by (simp add: TPUv5e_generateRooflineData_def H100_generateRooflineData_def Let_def)


section \<open>Binary64 values and their order\<close>

lemma round_mag_zero: "round_mag 0 = 0"
  by (simp add: round_mag_def)

lemma fl_cases:
  obtains (inf) "2 powi 1024 \<le> round_mag q" "fl neg q = signed_inf neg"
  | (zero) "round_mag q = 0" "fl neg q = signed_zero neg"
  | (fin) "0 < round_mag q" "round_mag q < 2 powi 1024"
      "fl neg q = Finite (if neg then - round_mag q else round_mag q)"
proof -
  have n: "0 \<le> round_mag q" by (rule round_mag_nonneg)
  consider "2 powi 1024 \<le> round_mag q" | "round_mag q = 0" "\<not> 2 powi 1024 \<le> round_mag q"
    | "0 < round_mag q" "round_mag q < 2 powi 1024"
    using n by fastforce
  then show thesis
  proof cases
    case 1 then show ?thesis using inf by (simp add: fl_def Let_def)
  next
    case 2 then show ?thesis using zero by (simp add: fl_def Let_def)
  next
    case 3 then show ?thesis using fin by (simp add: fl_def Let_def)
  qed
qed

lemma signed_valid: "is_binary64 (signed_inf b)" "is_binary64 (signed_zero b)"
  by (simp_all add: is_binary64_def signed_inf_def signed_zero_def round_mag_zero)

lemma special_valid: "is_binary64 NaN" "is_binary64 PosInf" "is_binary64 NegInf" "is_binary64 NegZero"
  by (simp_all add: is_binary64_def)

lemma fl_valid: "is_binary64 (fl neg q)"
proof (cases q neg rule: fl_cases)
  case inf then show ?thesis by (simp add: signed_valid)
next
  case zero then show ?thesis by (simp add: signed_valid)
next
  case fin
  then show ?thesis by (simp add: is_binary64_def round_mag_idem abs_of_pos)
qed

lemma dmul_valid: "is_binary64 (dmul x y)"
  by (simp add: dmul_def fl_valid signed_valid special_valid)

lemma ddiv_valid: "is_binary64 (ddiv x y)"
  by (simp add: ddiv_def fl_valid signed_valid special_valid)


lemma fl_ge:
  assumes "round_mag a = a" "a \<le> q"
  shows "fl False q = PosInf \<or> (\<exists>r. fl False q = Finite r \<and> a \<le> r)"
proof -
  have m: "a \<le> round_mag q" using round_mag_mono[OF assms(2)] assms(1) by simp
  show ?thesis
  proof (cases q False rule: fl_cases)
    case inf then show ?thesis by (simp add: signed_inf_def)
  next
    case zero then show ?thesis using m by (simp add: signed_zero_def)
  next
    case fin then show ?thesis using m by simp
  qed
qed

lemma fl_repr:
  assumes "round_mag a = a" "a < 2 powi 1024" "0 < a"
  shows "fl neg a = Finite (if neg then - a else a)"
  using assms by (simp add: fl_def Let_def)

lemma nonneg_cases:
  "dle (Finite 0) x \<longleftrightarrow> x = PosInf \<or> x = NegZero \<or> (\<exists>q. x = Finite q \<and> 0 \<le> q)"
  by (cases x) (auto simp: dle_def dlt_def val_def)

lemma fl_nonneg: "dle (Finite 0) (fl False q)"
proof (cases q False rule: fl_cases)
  case inf then show ?thesis by (simp add: nonneg_cases signed_inf_def)
next
  case zero then show ?thesis by (simp add: nonneg_cases signed_zero_def)
next
  case fin then show ?thesis by (simp add: nonneg_cases)
qed

lemma dmul_nonneg:
  assumes "dle (Finite 0) x" "0 < q"
  shows "dle (Finite 0) (dmul x (Finite q))"
proof -
  consider "x = PosInf" | "x = NegZero" | a where "x = Finite a" "0 \<le> a"
    using assms(1) by (auto simp: nonneg_cases)
  then show ?thesis
  proof cases
    case 1
    then show ?thesis using assms(2)
      by (simp add: dmul_def is_inf_def is_zero_def sign_bit_def signed_inf_def nonneg_cases)
  next
    case 2
    have "fl True 0 = NegZero" by (simp add: fl_def Let_def round_mag_zero signed_zero_def)
    then show ?thesis using 2 assms(2)
      by (simp add: dmul_def is_inf_def sign_bit_def mag_def val_def nonneg_cases)
  next
    case 3
    then show ?thesis using assms(2) fl_nonneg
      by (simp add: dmul_def is_inf_def sign_bit_def mag_def val_def not_less)
  qed
qed

lemma ddiv_nonneg:
  assumes "dle (Finite 0) x" "0 < q"
  shows "dle (Finite 0) (ddiv x (Finite q))"
proof -
  consider "x = PosInf" | "x = NegZero" | a where "x = Finite a" "0 \<le> a"
    using assms(1) by (auto simp: nonneg_cases)
  then show ?thesis
  proof cases
    case 1
    then show ?thesis using assms(2)
      by (simp add: ddiv_def is_inf_def is_zero_def sign_bit_def signed_inf_def nonneg_cases)
  next
    case 2
    have "fl True 0 = NegZero" by (simp add: fl_def Let_def round_mag_zero signed_zero_def)
    then show ?thesis using 2 assms(2)
      by (simp add: ddiv_def is_inf_def is_zero_def sign_bit_def mag_def val_def nonneg_cases)
  next
    case 3
    then show ?thesis using assms(2) fl_nonneg
      by (simp add: ddiv_def is_inf_def is_zero_def sign_bit_def mag_def val_def not_less)
  qed
qed

lemma dadd_nonneg:
  assumes "dle (Finite 0) x" "dle (Finite 0) y"
  shows "dle (Finite 0) (dadd x y)"
proof -
  consider "x = PosInf" | "x \<noteq> PosInf" "y = PosInf"
    | "x = NegZero \<or> (\<exists>a. x = Finite a \<and> 0 \<le> a)" "y = NegZero \<or> (\<exists>a. y = Finite a \<and> 0 \<le> a)"
    using assms by (auto simp: nonneg_cases)
  then show ?thesis
  proof cases
    case 1
    then show ?thesis using assms(2)
      by (auto simp: dadd_def is_inf_def nonneg_cases)
  next
    case 2
    then show ?thesis using assms(1)
      by (auto simp: dadd_def is_inf_def nonneg_cases)
  next
    case 3
    have v: "0 \<le> val x" "0 \<le> val y" using 3 by (auto simp: val_def)
    have n: "x \<noteq> NaN" "y \<noteq> NaN" "\<not> is_inf x" "\<not> is_inf y" using 3 by (auto simp: is_inf_def)
    show ?thesis
    proof (cases "val x + val y = 0")
      case True
      then show ?thesis using n
        by (simp add: dadd_def Let_def signed_zero_def nonneg_cases)
    next
      case False
      then have "\<not> val x + val y < 0" "\<bar>val x + val y\<bar> = val x + val y" using v by simp_all
      then show ?thesis using n False fl_nonneg
        by (simp add: dadd_def Let_def)
    qed
  qed
qed


lemma valid_round: "is_binary64 (Finite q) \<Longrightarrow> 0 \<le> q \<Longrightarrow> round_mag q = q \<and> q < 2 powi 1024"
  by (simp add: is_binary64_def)

lemma dadd_finite_nonneg:
  assumes "0 \<le> a" "0 \<le> b" "0 < a + b"
  shows "dadd (Finite a) (Finite b) = fl False (a + b)"
  using assms by (simp add: dadd_def Let_def is_inf_def val_def)

lemma dmax_finite:
  "dmax (Finite a) (Finite b) = Finite (max a b)"
  by (auto simp: dmax_def dlt_def val_def max_def)

lemma dle_finite: "dle (Finite a) (Finite b) \<longleftrightarrow> a \<le> b"
  by (auto simp: dle_def dlt_def val_def)

lemma deq_finite: "deq (Finite a) (Finite b) \<longleftrightarrow> a = b"
  by (auto simp: deq_def dlt_def val_def)

lemma dmax_le_dadd_finite:
  assumes "is_binary64 (Finite a)" "is_binary64 (Finite b)" "0 \<le> a" "0 \<le> b"
  shows "dle (dmax (Finite a) (Finite b)) (dadd (Finite a) (Finite b))"
proof (cases "a + b = 0")
  case True
  then have "a = 0" "b = 0" using assms by simp_all
  then show ?thesis
    by (simp add: dmax_def dadd_def Let_def dlt_def dle_def val_def is_inf_def signed_zero_def
        sign_bit_def)
next
  case False
  then have p: "0 < a + b" using assms by simp
  have r: "round_mag (max a b) = max a b"
    using valid_round[OF assms(1,3)] valid_round[OF assms(2,4)] by (simp add: max_def)
  have "max a b \<le> a + b" using assms by simp
  from fl_ge[OF r this] show ?thesis
    unfolding dmax_finite dadd_finite_nonneg[OF assms(3,4) p]
    by (auto simp: dle_finite) (simp add: dle_def dlt_def)
qed


lemma dadd_zero_left:
  assumes "is_binary64 (Finite b)" "0 \<le> b" "c = NegZero \<or> c = Finite 0"
  shows "dadd c (Finite b) = Finite b"
proof (cases "b = 0")
  case True
  then show ?thesis using assms(3)
    by (auto simp: dadd_def Let_def is_inf_def val_def signed_zero_def sign_bit_def)
next
  case False
  then have p: "0 < b" using assms(2) by simp
  have "fl False b = Finite b" using fl_repr[of b False] valid_round[OF assms(1,2)] p by simp
  then show ?thesis using assms(3) p
    by (auto simp: dadd_def Let_def is_inf_def val_def)
qed

lemma dadd_zero_right:
  assumes "is_binary64 (Finite b)" "0 \<le> b" "c = NegZero \<or> c = Finite 0"
  shows "dadd (Finite b) c = Finite b"
proof (cases "b = 0")
  case True
  then show ?thesis using assms(3)
    by (auto simp: dadd_def Let_def is_inf_def val_def signed_zero_def sign_bit_def)
next
  case False
  then have p: "0 < b" using assms(2) by simp
  have "fl False b = Finite b" using fl_repr[of b False] valid_round[OF assms(1,2)] p by simp
  then show ?thesis using assms(3) p
    by (auto simp: dadd_def Let_def is_inf_def val_def)
qed

lemma dmax_le_dadd:
  assumes "is_binary64 c" "is_binary64 e" "dle (Finite 0) c" "dle (Finite 0) e"
  shows "dle (dmax c e) (dadd c e)"
proof -
  consider "c = PosInf \<or> e = PosInf"
    | "c = NegZero" "e = NegZero"
    | b where "c = NegZero" "e = Finite b" "0 \<le> b"
    | a where "c = Finite a" "0 \<le> a" "e = NegZero"
    | a b where "c = Finite a" "0 \<le> a" "e = Finite b" "0 \<le> b"
    using assms(3,4) by (auto simp: nonneg_cases)
  then show ?thesis
  proof cases
    case 1
    then show ?thesis using assms(3,4)
      by (auto simp: nonneg_cases dmax_def dadd_def dle_def dlt_def is_inf_def)
  next
    case 2
    then show ?thesis
      by (simp add: dmax_def dadd_def dle_def dlt_def is_inf_def Let_def val_def signed_zero_def
          sign_bit_def)
  next
    case 3
    have "dadd c e = Finite b" using dadd_zero_left[of b c] assms(2) 3 by simp
    then show ?thesis using 3 by (auto simp: dmax_def dle_def dlt_def val_def)
  next
    case 4
    have "dadd c e = Finite a" using dadd_zero_right[of a e] assms(1) 4 by simp
    then show ?thesis using 4 by (auto simp: dmax_def dle_def dlt_def val_def)
  next
    case 5
    then show ?thesis using dmax_le_dadd_finite assms(1,2) by simp
  qed
qed

lemma dmax_eq_dadd_zero:
  assumes "is_binary64 c" "is_binary64 e" "dle (Finite 0) c" "dle (Finite 0) e"
    "deq c (Finite 0) \<or> deq e (Finite 0)"
  shows "deq (dmax c e) (dadd c e)"
proof -
  have z: "c = NegZero \<or> c = Finite 0 \<or> e = NegZero \<or> e = Finite 0"
    using assms(5) by (auto simp: deq_Finite)
  consider "c = PosInf \<or> e = PosInf"
    | "c = NegZero" "e = NegZero"
    | b where "c = NegZero" "e = Finite b" "0 \<le> b"
    | a where "c = Finite a" "0 \<le> a" "e = NegZero"
    | b where "c = Finite 0" "e = Finite b" "0 \<le> b"
    | a where "c = Finite a" "0 \<le> a" "e = Finite 0"
    using assms(3,4) z by (auto simp: nonneg_cases)
  then show ?thesis
  proof cases
    case 1
    then show ?thesis using assms(3,4)
      by (auto simp: nonneg_cases dmax_def dadd_def deq_def dlt_def is_inf_def)
  next
    case 2
    then show ?thesis
      by (simp add: dmax_def dadd_def deq_def dlt_def is_inf_def Let_def val_def signed_zero_def
          sign_bit_def)
  next
    case 3
    have "dadd c e = Finite b" using dadd_zero_left[of b c] assms(2) 3 by simp
    then show ?thesis using 3 by (auto simp: dmax_def deq_def dlt_def val_def)
  next
    case 4
    have "dadd c e = Finite a" using dadd_zero_right[of a e] assms(1) 4 by simp
    then show ?thesis using 4 by (auto simp: dmax_def deq_def dlt_def val_def)
  next
    case 5
    have "dadd c e = Finite b" using dadd_zero_left[of b c] assms(2) 5 by simp
    then show ?thesis using 5 by (auto simp: dmax_def deq_def dlt_def val_def)
  next
    case 6
    have "dadd c e = Finite a" using dadd_zero_right[of a e] assms(1) 6 by simp
    then show ?thesis using 6 by (auto simp: dmax_def deq_def dlt_def val_def)
  qed
qed

section \<open>Times of operations with positive dimensions\<close>

lemma positive_shape_times:
  assumes "shape (lhs m) = [Finite b, Finite d]" "shape (rhs m) = [Finite d', Finite f]"
    "0 < b" "0 < d" "0 < d'" "0 < f"
  shows "dle (Finite 0) (dmul (dmul (dmul (Finite 2) (idx (shape (lhs m)) 0)) (idx (shape (lhs m)) 1))
                      (idx (shape (rhs m)) 1))"
    and "dle (Finite 0) (totalBytes (calculateBytes m))"
proof -
  have two: "dle (Finite 0) (Finite 2)" by (simp add: nonneg_cases)
  have one: "dle (Finite 0) (Finite 1)" by (simp add: nonneg_cases)
  have w: "\<exists>q. bytesPerElement t = Finite q \<and> 0 < q" for t
    by (cases t) (simp_all, rule exI[of _ "1 / 2"], simp)
  show "dle (Finite 0) (dmul (dmul (dmul (Finite 2) (idx (shape (lhs m)) 0)) (idx (shape (lhs m)) 1))
                      (idx (shape (rhs m)) 1))"
    using assms by (simp add: idx_def dmul_nonneg two)
  obtain wl where wl: "bytesPerElement (dtype (lhs m)) = Finite wl" "0 < wl" using w by blast
  obtain wr where wr: "bytesPerElement (dtype (rhs m)) = Finite wr" "0 < wr" using w by blast
  obtain wo where wo: "bytesPerElement (output_dtype m) = Finite wo" "0 < wo" using w by blast
  have l: "dle (Finite 0) (dmul (dmul (dmul (Finite 1) (Finite b)) (Finite d)) (Finite wl))"
    using assms wl by (simp add: dmul_nonneg one)
  have r: "dle (Finite 0) (dmul (dmul (dmul (Finite 1) (Finite d')) (Finite f)) (Finite wr))"
    using assms wr by (simp add: dmul_nonneg one)
  have b: "dle (Finite 0) (Finite b)" using assms by (simp add: nonneg_cases)
  have o: "dle (Finite 0) (dmul (dmul (Finite b) (Finite f)) (Finite wo))"
    using assms wo by (simp add: dmul_nonneg b)
  show "dle (Finite 0) (totalBytes (calculateBytes m))"
    using l r o by (simp add: calculateBytes_def Let_def assms(1,2) wl wr wo idx_def dadd_nonneg)
qed


section \<open>Non-negative times\<close>

lemma time_bounds_nonneg:
  "(TPUv5e_calculateSingleNodeMetrics m = Inr s \<longrightarrow>
      lowerBoundTime s = dmax (computeTime s) (memoryTime s)
    \<and> upperBoundTime s = dadd (computeTime s) (memoryTime s)
    \<and> (dle (Finite 0) (computeTime s) \<and> dle (Finite 0) (memoryTime s) \<longrightarrow>
          dle (lowerBoundTime s) (upperBoundTime s)
        \<and> (deq (computeTime s) (Finite 0) \<or> deq (memoryTime s) (Finite 0) \<longrightarrow>
              deq (lowerBoundTime s) (upperBoundTime s)))
    \<and> (shape (lhs m) = [Finite b, Finite d] \<and> shape (rhs m) = [Finite d', Finite f]
          \<and> 0 < b \<and> 0 < d \<and> 0 < d' \<and> 0 < f \<longrightarrow>
          dle (Finite 0) (computeTime s) \<and> dle (Finite 0) (memoryTime s)))
   \<and> (H100_calculateSingleNodeMetrics m = Inr g \<longrightarrow>
      lowerBoundTime g = dmax (computeTime g) (effectiveMemoryTime g)
    \<and> upperBoundTime g = dadd (computeTime g) (effectiveMemoryTime g)
    \<and> (dle (Finite 0) (computeTime g) \<and> dle (Finite 0) (effectiveMemoryTime g) \<longrightarrow>
          dle (lowerBoundTime g) (upperBoundTime g)
        \<and> (deq (computeTime g) (Finite 0) \<or> deq (effectiveMemoryTime g) (Finite 0) \<longrightarrow>
              deq (lowerBoundTime g) (upperBoundTime g)))
    \<and> (shape (lhs m) = [Finite b, Finite d] \<and> shape (rhs m) = [Finite d', Finite f]
          \<and> 0 < b \<and> 0 < d \<and> 0 < d' \<and> 0 < f \<longrightarrow>
          dle (Finite 0) (computeTime g) \<and> dle (Finite 0) (effectiveMemoryTime g)))"
proof (intro conjI impI)
  assume s: "TPUv5e_calculateSingleNodeMetrics m = Inr s"
  note f = TPUv5e_single_fields[OF s]
  show l: "lowerBoundTime s = dmax (computeTime s) (memoryTime s)" by (rule f(6))
  show u: "upperBoundTime s = dadd (computeTime s) (memoryTime s)" by (rule f(7))
  have vc: "is_binary64 (computeTime s)" unfolding f(4) by (rule ddiv_valid)
  have vm: "is_binary64 (memoryTime s)" unfolding f(5) by (rule ddiv_valid)
  {
    assume n: "dle (Finite 0) (computeTime s) \<and> dle (Finite 0) (memoryTime s)"
    show "dle (lowerBoundTime s) (upperBoundTime s)"
      unfolding l u using vc vm n by (intro dmax_le_dadd) simp_all
    assume "deq (computeTime s) (Finite 0) \<or> deq (memoryTime s) (Finite 0)"
    then show "deq (lowerBoundTime s) (upperBoundTime s)"
      unfolding l u using vc vm n by (intro dmax_eq_dadd_zero) simp_all
  }
  assume p: "shape (lhs m) = [Finite b, Finite d] \<and> shape (rhs m) = [Finite d', Finite f]
          \<and> 0 < b \<and> 0 < d \<and> 0 < d' \<and> 0 < f"
  then have sh: "shape (lhs m) = [Finite b, Finite d]" "shape (rhs m) = [Finite d', Finite f]"
    and pos: "0 < b" "0 < d" "0 < d'" "0 < f" by simp_all
  note t = positive_shape_times[OF sh pos]
  have fl: "dle (Finite 0) (totalFLOPs s)"
    using f(1) t(1) by (auto simp: calculateFLOPs_def Let_def split: if_splits)
  show "dle (Finite 0) (computeTime s)"
    unfolding f(4) using fl
    by (auto simp: TPUv5e_flopsPerSecondINT8_def TPUv5e_flopsPerSecondBF16_def intro: ddiv_nonneg)
  show "dle (Finite 0) (memoryTime s)"
    unfolding f(5) f(2) TPUv5e_hbmBandwidth_def using t(2) by (intro ddiv_nonneg) simp_all
next
  assume g: "H100_calculateSingleNodeMetrics m = Inr g"
  note f = H100_single_fields[OF g]
  show l: "lowerBoundTime g = dmax (computeTime g) (effectiveMemoryTime g)" by (rule f(6))
  show u: "upperBoundTime g = dadd (computeTime g) (effectiveMemoryTime g)" by (rule f(7))
  have vc: "is_binary64 (computeTime g)" unfolding f(4) by (rule ddiv_valid)
  have vm: "is_binary64 (effectiveMemoryTime g)" unfolding f(11) by (rule ddiv_valid)
  {
    assume n: "dle (Finite 0) (computeTime g) \<and> dle (Finite 0) (effectiveMemoryTime g)"
    show "dle (lowerBoundTime g) (upperBoundTime g)"
      unfolding l u using vc vm n by (intro dmax_le_dadd) simp_all
    assume "deq (computeTime g) (Finite 0) \<or> deq (effectiveMemoryTime g) (Finite 0)"
    then show "deq (lowerBoundTime g) (upperBoundTime g)"
      unfolding l u using vc vm n by (intro dmax_eq_dadd_zero) simp_all
  }
  assume p: "shape (lhs m) = [Finite b, Finite d] \<and> shape (rhs m) = [Finite d', Finite f]
          \<and> 0 < b \<and> 0 < d \<and> 0 < d' \<and> 0 < f"
  then have sh: "shape (lhs m) = [Finite b, Finite d]" "shape (rhs m) = [Finite d', Finite f]"
    and pos: "0 < b" "0 < d" "0 < d'" "0 < f" by simp_all
  note t = positive_shape_times[OF sh pos]
  have fl: "dle (Finite 0) (totalFLOPs g)"
    using f(1) t(1) by (auto simp: calculateFLOPs_def Let_def split: if_splits)
  have fps: "\<exists>q. H100_flopsPerSecond (dtype (lhs m)) = Finite q \<and> 0 < q"
    by (cases "dtype (lhs m)")
       (simp_all add: H100_flopsPerSecondBF16_def H100_flopsPerSecondFP32_def
          H100_flopsPerSecondINT8_def H100_flopsPerSecondFP8_def)
  show "dle (Finite 0) (computeTime g)"
    unfolding f(4) using fl fps by (auto intro: ddiv_nonneg)
  have "dle (Finite 0) (memoryTime g)"
    unfolding f(5) f(2) H100_hbmBandwidth_def using t(2) by (intro ddiv_nonneg) simp_all
  then show "dle (Finite 0) (effectiveMemoryTime g)"
    unfolding f(11) f(10) by (auto intro: ddiv_nonneg)
qed


lemma TPUv5e_single_projr:
  "type m = ''matmul'' \<Longrightarrow>
   TPUv5e_calculateSingleNodeMetrics m = Inr (projr (TPUv5e_calculateSingleNodeMetrics m))"
  using TPUv5e_single_ok[of m] by auto

lemma H100_single_projr:
  "type m = ''matmul'' \<Longrightarrow>
   H100_calculateSingleNodeMetrics m = Inr (projr (H100_calculateSingleNodeMetrics m))"
  using H100_single_ok[of m] by auto

lemma sample_type: "type (sampleMatrix i b d f t) = ''matmul''"
  by (simp add: sample_defs)

lemma sample_zero_rows:
  "calculateFLOPs (sampleMatrix ''a'' 0 256 256 bf16) = Inr (Finite 0)"
  "totalBytes (calculateBytes (sampleMatrix ''a'' 0 256 256 bf16)) = Finite 131072"
  "RHSBytes (calculateBytes (sampleMatrix ''a'' 0 256 256 bf16)) = Finite 131072"
  by (simp_all add: calculateFLOPs_def calculateBytes_def sample_defs num_ev)


section \<open>Rounding error of a quotient of quotients\<close>

lemma fl_normal:
  assumes "2 powi (- 1022) \<le> q" "q \<le> 2 powi 1023"
  shows "fl neg q = Finite (if neg then - round_mag q else round_mag q)"
    and "2 powi (- 1022) \<le> round_mag q"
    and "round_mag q \<le> 2 powi 1023"
    and "\<bar>round_mag q - q\<bar> \<le> q * 2 powi (- 53)"
proof -
  have r1: "round_mag (2 powi (- 1022)) = 2 powi (- 1022)" by (rule round_mag_p2) simp
  have r2: "round_mag (2 powi 1023) = 2 powi 1023" by (rule round_mag_p2) simp
  have "round_mag (2 powi (- 1022)) \<le> round_mag q" using assms(1) by (rule round_mag_mono)
  then show l: "2 powi (- 1022) \<le> round_mag q" by (simp only: r1)
  have "round_mag q \<le> round_mag (2 powi 1023)" using assms(2) by (rule round_mag_mono)
  then show u: "round_mag q \<le> 2 powi 1023" by (simp only: r2)
  have "(0::rat) < 2 powi (- 1022)" by (rule zero_less_power_int) simp
  then have p: "0 < round_mag q" using l by (rule less_le_trans)
  have "(2::rat) powi 1023 < 2 powi 1024" by (simp only: p2_less_iff)
  then have n: "round_mag q < 2 powi 1024" using u by (rule le_less_trans[rotated])
  show "fl neg q = Finite (if neg then - round_mag q else round_mag q)"
  proof (cases q neg rule: fl_cases)
    case inf
    have False using inf(1) n by (meson leD)
    then show ?thesis ..
  next
    case zero
    have False using p unfolding zero(1) by simp
    then show ?thesis ..
  next
    case fin
    show ?thesis by (rule fin(3))
  qed
  show "\<bar>round_mag q - q\<bar> \<le> q * 2 powi (- 53)" using assms(1) by (rule round_mag_err)
qed






lemma ddiv_pos_finite:
  "0 < a \<Longrightarrow> 0 < b \<Longrightarrow> ddiv (Finite a) (Finite b) = fl False (a / b)"
  by (simp add: ddiv_def is_inf_def is_zero_def sign_bit_def mag_def val_def)


lemma p2_le_one: "k \<le> 0 \<Longrightarrow> (2::rat) powi k \<le> 1"
  using p2_le_iff[of k 0] by simp

section \<open>The VMEM speedup\<close>






section \<open>Operations on finite numbers\<close>

lemma ddiv_finite:
  "b \<noteq> 0 \<Longrightarrow> ddiv (Finite a) (Finite b) = fl ((a < 0) \<noteq> (b < 0)) (\<bar>a\<bar> / \<bar>b\<bar>)"
  by (simp add: ddiv_def is_inf_def is_zero_def sign_bit_def mag_def val_def)

lemma dmul_finite:
  "dmul (Finite a) (Finite b) = fl ((a < 0) \<noteq> (b < 0)) (\<bar>a\<bar> * \<bar>b\<bar>)"
  by (simp add: dmul_def is_inf_def sign_bit_def mag_def val_def)

lemma fl_zero: "fl neg 0 = signed_zero neg"
  by (simp add: fl_def Let_def round_mag_zero)

lemma p2_nat: "(2::rat) ^ j = 2 powi (int j)"
  by simp


section \<open>Accumulated rounding error\<close>

lemma ee_ge: "1 \<le> ee" "0 < ee" "0 \<le> ee"
proof -
  have "(0::rat) < 2 powi (- 52)" by (rule zero_less_power_int) simp
  then show "1 \<le> ee" "0 < ee" "0 \<le> ee" by (simp_all add: ee_def)
qed

lemma ee_pow: "1 \<le> ee ^ k" "0 < ee ^ k" "0 \<le> ee ^ k"
proof -
  show "1 \<le> ee ^ k" using ee_ge(1) by (rule one_le_power)
  then show "0 < ee ^ k" "0 \<le> ee ^ k" by linarith+
qed

lemma ee_pow_mono: "k \<le> l \<Longrightarrow> ee ^ k \<le> ee ^ l"
  using ee_ge(1) by (rule power_increasing[rotated])

lemma bernoulli_upper:
  fixes x :: rat
  assumes "0 \<le> x" "x \<le> 1"
  shows "(1 + x) ^ k \<le> 1 + (2 ^ k - 1) * x"
proof (induction k)
  case 0
  show ?case by simp
next
  case (Suc k)
  have c: "(0::rat) \<le> 2 ^ k - 1" by simp
  have "(1 + x) ^ Suc k = (1 + x) ^ k * (1 + x)" by simp
  also have "\<dots> \<le> (1 + (2 ^ k - 1) * x) * (1 + x)"
    using Suc assms(1) by (intro mult_right_mono) simp_all
  also have "\<dots> = 1 + (2 ^ k - 1) * x + x + (2 ^ k - 1) * (x * x)" by (simp add: algebra_simps)
  also have "\<dots> \<le> 1 + (2 ^ k - 1) * x + x + (2 ^ k - 1) * x"
  proof -
    have "x * x \<le> x * 1" using assms by (intro mult_left_mono) simp_all
    then have "x * x \<le> x" by (simp only: mult_1_right)
    then have "(2 ^ k - 1) * (x * x) \<le> (2 ^ k - 1) * x" using c by (rule mult_left_mono)
    then show ?thesis by (simp only: add_left_mono)
  qed
  also have "\<dots> = 1 + (2 ^ Suc k - 1) * x" by (simp add: algebra_simps)
  finally show ?case .
qed

lemma ee_pow_le: "k \<le> 40 \<Longrightarrow> ee ^ k \<le> 3 / 2"
proof -
  assume k: "k \<le> 40"
  have "ee ^ k \<le> ee ^ 40" using k by (rule ee_pow_mono)
  also have "\<dots> \<le> 1 + (2 ^ 40 - 1) * 2 powi (- 52)"
    unfolding ee_def by (rule bernoulli_upper) simp_all
  also have "\<dots> \<le> 3 / 2" by simp
  finally show ?thesis .
qed

lemma rel_refl: "rel_close 0 a a"
  by (simp add: rel_close_def)

lemma rel_pos: "rel_close k a q \<Longrightarrow> 0 < q \<Longrightarrow> 0 < a"
proof -
  assume r: "rel_close k a q" and q: "0 < q"
  have "0 < a * ee ^ k" using r q by (simp add: rel_close_def)
  then show "0 < a" using ee_pow(2)[of k] by (rule zero_less_mult_pos2)
qed

lemma rel_mono:
  assumes "rel_close k a q" "0 \<le> a" "0 \<le> q" "k \<le> l"
  shows "rel_close l a q"
proof -
  have m: "ee ^ k \<le> ee ^ l" using assms(4) by (rule ee_pow_mono)
  have "q * ee ^ k \<le> q * ee ^ l" using m assms(3) by (rule mult_left_mono)
  moreover have "a * ee ^ k \<le> a * ee ^ l" using m assms(2) by (rule mult_left_mono)
  ultimately show ?thesis using assms(1) by (simp add: rel_close_def)
qed

lemma rel_trans:
  assumes "rel_close k a b" "rel_close l b c"
  shows "rel_close (k + l) a c"
proof -
  have "a \<le> b * ee ^ k" using assms(1) by (simp add: rel_close_def)
  also have "\<dots> \<le> (c * ee ^ l) * ee ^ k"
    using assms(2) ee_pow(3)[of k] by (intro mult_right_mono) (simp_all add: rel_close_def)
  finally have 1: "a \<le> c * ee ^ (k + l)" by (simp add: power_add mult.commute mult.left_commute)
  have "c \<le> b * ee ^ l" using assms(2) by (simp add: rel_close_def)
  also have "\<dots> \<le> (a * ee ^ k) * ee ^ l"
    using assms(1) ee_pow(3)[of l] by (intro mult_right_mono) (simp_all add: rel_close_def)
  finally have 2: "c \<le> a * ee ^ (k + l)" by (simp add: power_add mult.assoc)
  show ?thesis using 1 2 by (simp add: rel_close_def)
qed

lemma rel_mult:
  assumes "rel_close k a x" "rel_close l b y" "0 \<le> a" "0 \<le> b" "0 \<le> x" "0 \<le> y"
  shows "rel_close (k + l) (a * b) (x * y)"
proof -
  have "a * b \<le> (x * ee ^ k) * (y * ee ^ l)"
    using assms by (intro mult_mono) (simp_all add: rel_close_def ee_pow)
  then have 1: "a * b \<le> x * y * ee ^ (k + l)" by (simp add: power_add mult_ac)
  have "x * y \<le> (a * ee ^ k) * (b * ee ^ l)"
    using assms by (intro mult_mono) (simp_all add: rel_close_def ee_pow)
  then have 2: "x * y \<le> a * b * ee ^ (k + l)" by (simp add: power_add mult_ac)
  show ?thesis using 1 2 by (simp add: rel_close_def)
qed

lemma rel_inverse:
  assumes "rel_close l b y" "0 < b" "0 < y"
  shows "rel_close l (1 / b) (1 / y)"
proof -
  have e: "0 < ee ^ l" by (rule ee_pow)
  have "y \<le> b * ee ^ l" using assms(1) by (simp add: rel_close_def)
  then have 1: "1 / b \<le> 1 / y * ee ^ l" using assms(2,3) e by (simp add: field_simps)
  have "b \<le> y * ee ^ l" using assms(1) by (simp add: rel_close_def)
  then have 2: "1 / y \<le> 1 / b * ee ^ l" using assms(2,3) e by (simp add: field_simps)
  show ?thesis using 1 2 by (simp only: rel_close_def)
qed

lemma rel_div:
  assumes "rel_close k a x" "rel_close l b y" "0 \<le> a" "0 < b" "0 \<le> x" "0 < y"
  shows "rel_close (k + l) (a / b) (x / y)"
proof -
  have "rel_close (k + l) (a * (1 / b)) (x * (1 / y))"
    using assms(1) rel_inverse[OF assms(2,4,6)] assms(3) _ assms(5)
    by (rule rel_mult) (use assms(4,6) in simp_all)
  then show ?thesis by simp
qed

lemma rel_add:
  assumes "rel_close k a x" "rel_close k b y"
  shows "rel_close k (a + b) (x + y)"
  using assms by (simp add: rel_close_def distrib_right add_mono)

lemma rel_round:
  assumes "2 powi (- 1022) \<le> q" "q \<le> 2 powi 1023"
  shows "rel_close 1 q (round_mag q)"
proof -
  define r where "r = round_mag q"
  define u :: rat where "u = 2 powi (- 53)"
  have "(0::rat) < 2 powi (- 1022)" by (rule zero_less_power_int) simp
  then have qp: "0 < q" using assms(1) by (rule less_le_trans)
  have e: "\<bar>r - q\<bar> \<le> q * u" unfolding r_def u_def by (rule fl_normal(4)[OF assms])
  have ee: "ee = 1 + 2 * u" by (simp add: ee_def u_def)
  have u: "0 < u" "u \<le> 1 / 2" by (simp_all add: u_def)
  have up: "r \<le> q * (1 + u)" using e by (simp add: algebra_simps abs_le_iff)
  have lo: "q * (1 - u) \<le> r" using e by (simp add: algebra_simps abs_le_iff)
  have "q * (1 + u) \<le> q * ee" using qp u unfolding ee by (intro mult_left_mono) simp_all
  then have 2: "r \<le> q * ee" using up by linarith
  have "q * 1 \<le> q * ((1 - u) * ee)"
  proof (rule mult_left_mono)
    have "(1 - u) * ee = 1 + u * (1 - 2 * u)" by (simp add: ee algebra_simps)
    moreover have "0 \<le> u * (1 - 2 * u)" using u by (intro mult_nonneg_nonneg) simp_all
    ultimately show "1 \<le> (1 - u) * ee" by simp
    show "0 \<le> q" using qp by simp
  qed
  also have "\<dots> = (q * (1 - u)) * ee" by simp
  also have "\<dots> \<le> r * ee" using lo ee_ge(3) by (rule mult_right_mono)
  finally have 1: "q \<le> r * ee" by simp
  show ?thesis using 1 2 by (simp add: rel_close_def r_def)
qed

lemma p2_pos: "(0::rat) < 2 powi i"
  by (rule zero_less_power_int) simp

lemma approxD:
  assumes "approx k i j a x"
  obtains q where "x = Finite q" "0 < q" "0 < a" "2 powi i \<le> q" "q \<le> 2 powi j" "rel_close k a q"
proof -
  from assms obtain q where x: "x = Finite q" and r: "2 powi i \<le> q" "q \<le> 2 powi j"
    by (cases x) (simp_all add: approx_def in_range_def)
  have c: "rel_close k a q" using assms by (simp add: approx_def x val_def)
  have q: "0 < q" using p2_pos r(1) by (rule less_le_trans)
  have "0 < a" using c q by (rule rel_pos)
  then show thesis using that x q r c by blast
qed

lemma approx_fl:
  assumes "2 powi ii \<le> v" "v \<le> 2 powi jj" "- 1022 \<le> ii" "jj \<le> 1023"
    "rel_close k a v" "k + 1 \<le> n"
  shows "approx n ii jj a (fl False v)"
proof -
  have 1: "2 powi (- 1022) \<le> v"
  proof -
    have "(2::rat) powi (- 1022) \<le> 2 powi ii" using assms(3) by (simp only: p2_le_iff)
    then show ?thesis using assms(1) by (rule order_trans)
  qed
  have 2: "v \<le> 2 powi 1023"
  proof -
    have "(2::rat) powi jj \<le> 2 powi 1023" using assms(4) by (simp only: p2_le_iff)
    then show ?thesis using assms(2) by (rule order_trans[rotated])
  qed
  define r where "r = round_mag v"
  have f: "fl False v = Finite r" using fl_normal(1)[OF 1 2, of False] by (simp add: r_def)
  have "round_mag (2 powi ii) \<le> round_mag v" using assms(1) by (rule round_mag_mono)
  moreover have "round_mag (2 powi ii) = 2 powi ii" using assms(3) by (intro round_mag_p2) simp
  ultimately have lo: "2 powi ii \<le> r" by (simp add: r_def)
  have "round_mag v \<le> round_mag (2 powi jj)" using assms(2) by (rule round_mag_mono)
  moreover have "round_mag (2 powi jj) = 2 powi jj" using assms(1,3)
  proof -
    have "2 powi ii \<le> (2::rat) powi jj" using assms(1,2) by (rule order_trans)
    then have "ii \<le> jj" by (simp only: p2_le_iff)
    then show ?thesis using assms(3) by (intro round_mag_p2) simp
  qed
  ultimately have hi: "r \<le> 2 powi jj" by (simp add: r_def)
  have vp: "0 < v" using p2_pos assms(1) by (rule less_le_trans)
  have rp: "0 < r" using p2_pos lo by (rule less_le_trans)
  have ap: "0 < a" using assms(5) vp by (rule rel_pos)
  have "rel_close (k + 1) a r" using assms(5) rel_round[OF 1 2] unfolding r_def by (rule rel_trans)
  then have "rel_close n a r" using less_imp_le[OF ap] less_imp_le[OF rp] assms(6) by (rule rel_mono)
  then show ?thesis using lo hi by (simp add: approx_def in_range_def f val_def)
qed

lemma approx_const: "2 powi i \<le> c \<Longrightarrow> c \<le> 2 powi j \<Longrightarrow> approx 0 i j c (Finite c)"
  by (simp add: approx_def in_range_def val_def rel_refl)

lemma approx_mul:
  assumes "approx k i j a x" "approx l i' j' b y"
    "k + l + 1 \<le> n" "ii \<le> i + i'" "j + j' \<le> jj" "- 1022 \<le> ii" "jj \<le> 1023"
  shows "approx n ii jj (a * b) (dmul x y)"
proof -
  from assms(1) obtain p where p: "x = Finite p" "0 < p" "0 < a" "2 powi i \<le> p" "p \<le> 2 powi j"
    "rel_close k a p" by (rule approxD)
  from assms(2) obtain q where q: "y = Finite q" "0 < q" "0 < b" "2 powi i' \<le> q" "q \<le> 2 powi j'"
    "rel_close l b q" by (rule approxD)
  have e: "dmul x y = fl False (p * q)"
    using p(2) q(2) by (simp add: p(1) q(1) dmul_finite abs_of_pos not_less less_imp_le)
  have "(2::rat) powi ii \<le> 2 powi (i + i')" using assms(4) by (simp only: p2_le_iff)
  also have "\<dots> = 2 powi i * 2 powi i'" by (simp add: power_int_add)
  also have "\<dots> \<le> p * q" using p(4) q(4) p2_pos[of i'] p(2) by (intro mult_mono) simp_all
  finally have lo: "2 powi ii \<le> p * q" .
  have "p * q \<le> 2 powi j * 2 powi j'"
    using p(5) q(5) p2_pos[of j] q(2) by (intro mult_mono) simp_all
  also have "\<dots> = 2 powi (j + j')" by (simp add: power_int_add)
  also have "\<dots> \<le> 2 powi jj" using assms(5) by (simp only: p2_le_iff)
  finally have hi: "p * q \<le> 2 powi jj" .
  have r: "rel_close (k + l) (a * b) (p * q)"
    using p(6) q(6) p(3) q(3) p(2) q(2) by (intro rel_mult) simp_all
  show ?thesis unfolding e using lo hi assms(6,7) r
    by (rule approx_fl) (use assms(3) in simp)
qed

lemma approx_div:
  assumes "approx k i j a x" "approx l i' j' b y"
    "k + l + 1 \<le> n" "ii \<le> i - j'" "j - i' \<le> jj" "- 1022 \<le> ii" "jj \<le> 1023"
  shows "approx n ii jj (a / b) (ddiv x y)"
proof -
  from assms(1) obtain p where p: "x = Finite p" "0 < p" "0 < a" "2 powi i \<le> p" "p \<le> 2 powi j"
    "rel_close k a p" by (rule approxD)
  from assms(2) obtain q where q: "y = Finite q" "0 < q" "0 < b" "2 powi i' \<le> q" "q \<le> 2 powi j'"
    "rel_close l b q" by (rule approxD)
  have e: "ddiv x y = fl False (p / q)"
    unfolding p(1) q(1) using p(2) q(2) by (rule ddiv_pos_finite)
  have "(2::rat) powi ii \<le> 2 powi (i - j')" using assms(4) by (simp only: p2_le_iff)
  also have "\<dots> = 2 powi i / 2 powi j'" by (simp add: power_int_diff)
  also have "\<dots> \<le> p / q" by (rule frac_le[OF less_imp_le[OF p(2)] p(4) q(2) q(5)])
  finally have lo: "2 powi ii \<le> p / q" .
  have "p / q \<le> 2 powi j / 2 powi i'"
    by (rule frac_le[OF less_imp_le[OF p2_pos] p(5) p2_pos q(4)])
  also have "\<dots> = 2 powi (j - i')" by (simp add: power_int_diff)
  also have "\<dots> \<le> 2 powi jj" using assms(5) by (simp only: p2_le_iff)
  finally have hi: "p / q \<le> 2 powi jj" .
  have r: "rel_close (k + l) (a / b) (p / q)"
    using p(6) q(6) p(3) q(3) p(2) q(2) by (intro rel_div) simp_all
  show ?thesis unfolding e using lo hi assms(6,7) r
    by (rule approx_fl) (use assms(3) in simp)
qed

lemma approx_add:
  assumes "approx k i j a x" "approx l i' j' b y"
    "k + 1 \<le> n" "l + 1 \<le> n" "ii \<le> i" "j + 1 \<le> jj" "j' + 1 \<le> jj" "- 1022 \<le> ii" "jj \<le> 1023"
  shows "approx n ii jj (a + b) (dadd x y)"
proof -
  from assms(1) obtain p where p: "x = Finite p" "0 < p" "0 < a" "2 powi i \<le> p" "p \<le> 2 powi j"
    "rel_close k a p" by (rule approxD)
  from assms(2) obtain q where q: "y = Finite q" "0 < q" "0 < b" "2 powi i' \<le> q" "q \<le> 2 powi j'"
    "rel_close l b q" by (rule approxD)
  have e: "dadd x y = fl False (p + q)"
    unfolding p(1) q(1) using p(2) q(2) by (intro dadd_finite_nonneg) simp_all
  have "(2::rat) powi ii \<le> 2 powi i" using assms(5) by (simp only: p2_le_iff)
  also have "\<dots> \<le> p + q" using p(4) q(2) by linarith
  finally have lo: "2 powi ii \<le> p + q" .
  have "(2::rat) powi j \<le> 2 powi (jj - 1)" using assms(6) by (simp only: p2_le_iff)
  then have 1: "p \<le> 2 powi (jj - 1)" using p(5) by linarith
  have "(2::rat) powi j' \<le> 2 powi (jj - 1)" using assms(7) by (simp only: p2_le_iff)
  then have 2: "q \<le> 2 powi (jj - 1)" using q(5) by linarith
  have "(2::rat) powi jj = 2 powi (jj - 1) + 2 powi (jj - 1)" by (simp add: power_int_diff)
  then have hi: "p + q \<le> 2 powi jj" using 1 2 by linarith
  define m where "m = max k l"
  have "k \<le> m" "l \<le> m" by (simp_all add: m_def)
  note km = this
  have "rel_close m a p" using p(6) less_imp_le[OF p(3)] less_imp_le[OF p(2)] km(1) by (rule rel_mono)
  moreover have "rel_close m b q"
    using q(6) less_imp_le[OF q(3)] less_imp_le[OF q(2)] km(2) by (rule rel_mono)
  ultimately have r: "rel_close m (a + b) (p + q)" by (rule rel_add)
  show ?thesis unfolding e using lo hi assms(8,9) r
    by (rule approx_fl) (use assms(3,4) in \<open>simp add: m_def\<close>)
qed


section \<open>Non-negative numbers below a power of two\<close>

lemma boundedD:
  assumes "bounded j x"
  obtains q where "x = Finite q" "0 \<le> q" "q \<le> 2 powi j"
  using assms by (cases x) (simp_all add: bounded_def)

lemma boundedI: "0 \<le> q \<Longrightarrow> q \<le> 2 powi j \<Longrightarrow> bounded j (Finite q)"
  by (simp add: bounded_def)

lemma bounded_fl:
  assumes "0 \<le> v" "v \<le> 2 powi jj" "- 1074 \<le> jj" "jj \<le> 1023"
  shows "bounded jj (fl False v)"
proof -
  have "round_mag v \<le> round_mag (2 powi jj)" using assms(2) by (rule round_mag_mono)
  moreover have "round_mag (2 powi jj) = 2 powi jj" using assms(3) by (rule round_mag_p2)
  ultimately have hi: "round_mag v \<le> 2 powi jj" by simp
  have "(2::rat) powi jj < 2 powi 1024" using assms(4) by (simp only: p2_less_iff)
  then have lt: "round_mag v < 2 powi 1024" using hi by (rule le_less_trans[rotated])
  show ?thesis
  proof (cases v False rule: fl_cases)
    case inf
    have False using inf(1) lt by (meson leD)
    then show ?thesis ..
  next
    case zero
    then show ?thesis using p2_pos[of jj] by (simp add: signed_zero_def bounded_def less_imp_le)
  next
    case fin
    then show ?thesis using hi by (simp add: bounded_def less_imp_le)
  qed
qed

lemma bounded_mono: "bounded j x \<Longrightarrow> j \<le> jj \<Longrightarrow> bounded jj x"
proof -
  assume b: "bounded j x" and l: "j \<le> jj"
  from b obtain q where q: "x = Finite q" "0 \<le> q" "q \<le> 2 powi j" by (rule boundedD)
  have "(2::rat) powi j \<le> 2 powi jj" using l by (simp only: p2_le_iff)
  then have "q \<le> 2 powi jj" using q(3) by linarith
  then show ?thesis using q(1,2) by (simp add: bounded_def)
qed

lemma approx_bounded: "approx k i j a x \<Longrightarrow> bounded j x"
  by (erule approxD) (simp add: bounded_def less_imp_le)

lemma bounded_mul:
  assumes "bounded j x" "bounded j' y" "j + j' \<le> jj" "- 1074 \<le> jj" "jj \<le> 1023"
  shows "bounded jj (dmul x y)"
proof -
  from assms(1) obtain p where p: "x = Finite p" "0 \<le> p" "p \<le> 2 powi j" by (rule boundedD)
  from assms(2) obtain q where q: "y = Finite q" "0 \<le> q" "q \<le> 2 powi j'" by (rule boundedD)
  have e: "dmul x y = fl False (p * q)"
    using p(2) q(2) by (simp add: p(1) q(1) dmul_finite abs_of_nonneg not_less)
  have "p * q \<le> 2 powi j * 2 powi j'"
    using p(3) q(3) p2_pos[of j] q(2) by (intro mult_mono) simp_all
  also have "\<dots> = 2 powi (j + j')" by (simp add: power_int_add)
  also have "\<dots> \<le> 2 powi jj" using assms(3) by (simp only: p2_le_iff)
  finally have hi: "p * q \<le> 2 powi jj" .
  have lo: "0 \<le> p * q" using p(2) q(2) by simp
  show ?thesis unfolding e using lo hi assms(4,5) by (rule bounded_fl)
qed

lemma dmul_zero:
  assumes "bounded j y"
  shows "dmul (Finite 0) y = Finite 0" "dmul y (Finite 0) = Finite 0"
proof -
  from assms obtain q where q: "y = Finite q" "0 \<le> q" "q \<le> 2 powi j" by (rule boundedD)
  show "dmul (Finite 0) y = Finite 0" "dmul y (Finite 0) = Finite 0"
    using q(2) by (simp_all add: q(1) dmul_finite fl_zero signed_zero_def not_less)
qed

lemma bounded_add:
  assumes "bounded j x" "bounded j' y" "j + 1 \<le> jj" "j' + 1 \<le> jj" "- 1074 \<le> jj" "jj \<le> 1023"
  shows "bounded jj (dadd x y)"
proof -
  from assms(1) obtain p where p: "x = Finite p" "0 \<le> p" "p \<le> 2 powi j" by (rule boundedD)
  from assms(2) obtain q where q: "y = Finite q" "0 \<le> q" "q \<le> 2 powi j'" by (rule boundedD)
  have "(2::rat) powi j \<le> 2 powi (jj - 1)" using assms(3) by (simp only: p2_le_iff)
  then have 1: "p \<le> 2 powi (jj - 1)" using p(3) by linarith
  have "(2::rat) powi j' \<le> 2 powi (jj - 1)" using assms(4) by (simp only: p2_le_iff)
  then have 2: "q \<le> 2 powi (jj - 1)" using q(3) by linarith
  have "(2::rat) powi jj = 2 powi (jj - 1) + 2 powi (jj - 1)" by (simp add: power_int_diff)
  then have hi: "p + q \<le> 2 powi jj" using 1 2 by linarith
  show ?thesis
  proof (cases "p + q = 0")
    case True
    then have "dadd x y = Finite 0"
      using p(2) q(2) by (simp add: p(1) q(1) dadd_def Let_def is_inf_def val_def signed_zero_def
          sign_bit_def not_less)
    then show ?thesis using p2_pos[of jj] by (simp add: bounded_def less_imp_le)
  next
    case False
    then have "0 < p + q" using p(2) q(2) by linarith
    then have e: "dadd x y = fl False (p + q)"
      unfolding p(1) q(1) using p(2) q(2) by (intro dadd_finite_nonneg) simp_all
    have lo: "0 \<le> p + q" using p(2) q(2) by simp
    show ?thesis unfolding e using lo hi assms(5,6) by (rule bounded_fl)
  qed
qed

lemma bounded_div:
  assumes "bounded j x" "approx k i' j' b y" "j - i' \<le> jj" "- 1074 \<le> jj" "jj \<le> 1023"
  shows "bounded jj (ddiv x y)"
proof -
  from assms(1) obtain p where p: "x = Finite p" "0 \<le> p" "p \<le> 2 powi j" by (rule boundedD)
  from assms(2) obtain q where q: "y = Finite q" "0 < q" "0 < b" "2 powi i' \<le> q" "q \<le> 2 powi j'"
    "rel_close k b q" by (rule approxD)
  have qz: "q \<noteq> 0" using q(2) by simp
  have e: "ddiv x y = fl False (p / q)"
    using p(2) q(2) by (simp add: p(1) q(1) ddiv_finite[OF qz] abs_of_nonneg abs_of_pos not_less
        less_imp_le)
  have "p / q \<le> 2 powi j / 2 powi i'"
    by (rule frac_le[OF less_imp_le[OF p2_pos] p(3) p2_pos q(4)])
  also have "\<dots> = 2 powi (j - i')" by (simp add: power_int_diff)
  also have "\<dots> \<le> 2 powi jj" using assms(3) by (simp only: p2_le_iff)
  finally have hi: "p / q \<le> 2 powi jj" .
  have lo: "0 \<le> p / q" using p(2) q(2) by simp
  show ?thesis unfolding e using lo hi assms(4,5) by (rule bounded_fl)
qed

lemma ddiv_zero:
  assumes "approx k i j b y"
  shows "ddiv (Finite 0) y = Finite 0"
proof -
  from assms obtain q where q: "y = Finite q" "0 < q" by (rule approxD)
  have qz: "q \<noteq> 0" using q(2) by simp
  show ?thesis using q(2) by (simp add: q(1) ddiv_finite[OF qz] fl_zero signed_zero_def not_less
        less_imp_le)
qed

lemma bounded_nonneg: "bounded j x \<Longrightarrow> dle (Finite 0) x"
  by (erule boundedD) (simp add: dle_finite)


section \<open>Compute and memory time of operations with integer dimensions\<close>

lemma p2_double: "(2::rat) powi jj = 2 powi (jj - 1) + 2 powi (jj - 1)"
  by (simp add: power_int_diff)

lemma dlt_finite: "dlt (Finite a) (Finite b) \<longleftrightarrow> a < b"
  by (simp add: dlt_def val_def)

lemma width_range: "1 / 2 \<le> val (bytesPerElement t)" "val (bytesPerElement t) \<le> 4"
  by (cases t; simp add: val_def)+

lemma width_approx: "approx 0 (- 1) 2 (val (bytesPerElement t)) (bytesPerElement t)"
proof -
  define w where "w = val (bytesPerElement t)"
  have w: "bytesPerElement t = Finite w" by (cases t) (simp_all add: w_def val_def)
  have "1 / 2 \<le> w" "w \<le> 4" using width_range[of t] by (simp_all add: w val_def)
  then have "2 powi (- 1) \<le> w" "w \<le> 2 powi 2" by simp_all
  then have "approx 0 (- 1) 2 w (Finite w)" by (rule approx_const)
  then show ?thesis by (simp add: w val_def)
qed

lemma dim_approx:
  assumes "1 \<le> n" "n \<le> 2 ^ 53"
  shows "approx 0 0 53 (of_nat n) (Finite (of_nat n))"
proof (rule approx_const)
  show "2 powi 0 \<le> (of_nat n :: rat)" using assms(1) by simp
  have "(of_nat n :: rat) \<le> of_nat (2 ^ 53)" using assms(2) by (simp only: of_nat_le_iff)
  then show "(of_nat n :: rat) \<le> 2 powi 53" by simp
qed

lemma dim_bounded:
  assumes "n \<le> 2 ^ 53"
  shows "bounded 53 (Finite (of_nat n))"
proof (rule boundedI)
  show "0 \<le> (of_nat n :: rat)" by simp
  have "(of_nat n :: rat) \<le> of_nat (2 ^ 53)" using assms by (simp only: of_nat_le_iff)
  then show "(of_nat n :: rat) \<le> 2 powi 53" by simp
qed

lemma flops_approx:
  assumes "approx 0 0 53 b B" "approx 0 0 53 d D" "approx 0 0 53 f F"
  shows "approx 3 1 160 (2 * b * d * f) (dmul (dmul (dmul (Finite 2) B) D) F)"
proof -
  have two: "approx 0 1 1 2 (Finite 2)" by (rule approx_const) simp_all
  have 1: "approx 1 1 54 (2 * b) (dmul (Finite 2) B)"
    using two assms(1) by (rule approx_mul) simp_all
  have 2: "approx 2 1 107 (2 * b * d) (dmul (dmul (Finite 2) B) D)"
    using 1 assms(2) by (rule approx_mul) simp_all
  show ?thesis using 2 assms(3) by (rule approx_mul) simp_all
qed

lemma operand_approx:
  assumes "approx 0 0 53 b B" "approx 0 0 53 d D"
  shows "approx 3 (- 1) 108 (b * d * val (bytesPerElement t))
           (dmul (foldl (\<lambda>acc d. dmul acc d) (Finite 1) [B, D]) (bytesPerElement t))"
proof -
  have one: "approx 0 0 0 1 (Finite 1)" by (rule approx_const) simp_all
  have "approx 1 0 53 (1 * b) (dmul (Finite 1) B)"
    using one assms(1) by (rule approx_mul) simp_all
  then have 1: "approx 1 0 53 b (dmul (Finite 1) B)" by simp
  have 2: "approx 2 0 106 (b * d) (dmul (dmul (Finite 1) B) D)"
    using 1 assms(2) by (rule approx_mul) simp_all
  have "approx 3 (- 1) 108 (b * d * val (bytesPerElement t))
           (dmul (dmul (dmul (Finite 1) B) D) (bytesPerElement t))"
    using 2 width_approx by (rule approx_mul) simp_all
  then show ?thesis by simp
qed

lemma bytes_approx:
  assumes sh: "shape (lhs m) = [B, D]" "shape (rhs m) = [D', F]"
    and a: "approx 0 0 53 b B" "approx 0 0 53 d D" "approx 0 0 53 d' D'" "approx 0 0 53 f F"
  shows "approx 5 (- 1) 110
           (b * d * val (bytesPerElement (dtype (lhs m)))
              + d' * f * val (bytesPerElement (dtype (rhs m)))
              + b * f * val (bytesPerElement (output_dtype m)))
           (totalBytes (calculateBytes m))"
    and "approx 3 (- 1) 108 (d' * f * val (bytesPerElement (dtype (rhs m))))
           (RHSBytes (calculateBytes m))"
proof -
  note l = operand_approx[OF a(1,2), of "dtype (lhs m)"]
  note r = operand_approx[OF a(3,4), of "dtype (rhs m)"]
  have 1: "approx 1 0 106 (b * f) (dmul B F)" using a(1,4) by (rule approx_mul) simp_all
  have o: "approx 2 (- 1) 108 (b * f * val (bytesPerElement (output_dtype m)))
      (dmul (dmul B F) (bytesPerElement (output_dtype m)))"
    using 1 width_approx by (rule approx_mul) simp_all
  have lr: "approx 4 (- 1) 109
      (b * d * val (bytesPerElement (dtype (lhs m))) + d' * f * val (bytesPerElement (dtype (rhs m))))
      (dadd (dmul (foldl (\<lambda>acc d. dmul acc d) (Finite 1) [B, D]) (bytesPerElement (dtype (lhs m))))
            (dmul (foldl (\<lambda>acc d. dmul acc d) (Finite 1) [D', F]) (bytesPerElement (dtype (rhs m)))))"
    using l r by (rule approx_add) simp_all
  have t: "totalBytes (calculateBytes m)
      = dadd (dadd (dmul (foldl (\<lambda>acc d. dmul acc d) (Finite 1) [B, D]) (bytesPerElement (dtype (lhs m))))
            (dmul (foldl (\<lambda>acc d. dmul acc d) (Finite 1) [D', F]) (bytesPerElement (dtype (rhs m)))))
          (dmul (dmul B F) (bytesPerElement (output_dtype m)))"
    by (simp add: calculateBytes_def Let_def sh idx_def)
  show "approx 5 (- 1) 110
           (b * d * val (bytesPerElement (dtype (lhs m)))
              + d' * f * val (bytesPerElement (dtype (rhs m)))
              + b * f * val (bytesPerElement (output_dtype m)))
           (totalBytes (calculateBytes m))"
    unfolding t using lr o by (rule approx_add) simp_all
  have "RHSBytes (calculateBytes m)
      = dmul (foldl (\<lambda>acc d. dmul acc d) (Finite 1) [D', F]) (bytesPerElement (dtype (rhs m)))"
    by (simp add: calculateBytes_def Let_def sh)
  then show "approx 3 (- 1) 108 (d' * f * val (bytesPerElement (dtype (rhs m))))
           (RHSBytes (calculateBytes m))"
    using r by simp
qed

lemma rounded_sum_exceeds:
  fixes p q z :: rat
  assumes e: "\<bar>z - (p + q)\<bar> \<le> (p + q) * (1 / 9007199254740992)"
    and "p \<le> 6755399441055744 * q" "0 < q"
  shows "p < z"
proof -
  have 1: "(p + q) - z \<le> (p + q) * (1 / 9007199254740992)" using e by linarith
  have 2: "p * (1 / 9007199254740992) \<le> (6755399441055744 * q) * (1 / 9007199254740992)"
    using assms(2) by (rule mult_right_mono) simp
  have 3: "(6755399441055744 * q) * (1 / 9007199254740992) = (3 / 4) * q" by simp
  have 4: "(p + q) * (1 / 9007199254740992) = p * (1 / 9007199254740992) + q * (1 / 9007199254740992)"
    by (rule distrib_right)
  have 5: "q * (1 / 9007199254740992) \<le> q * (1 / 8)" using assms(3) by (intro mult_left_mono) simp_all
  show ?thesis using 1 2 3 4 5 assms(3) by linarith
qed

lemma sum_exceeds_parts:
  assumes c: "approx kc ic jc C c" and m: "approx km im jm M m"
    and k: "kc + km \<le> 40" and r: "- 1022 \<le> ic" "jc \<le> 1022" "jm \<le> 1022"
    and b: "C \<le> 2 ^ 52 * M" "M \<le> 2 ^ 52 * C"
  shows "dlt (dmax c m) (dadd c m)" "\<not> deq c (Finite 0)" "\<not> deq m (Finite 0)"
proof -
  from c obtain p where p: "c = Finite p" "0 < p" "0 < C" "2 powi ic \<le> p" "p \<le> 2 powi jc"
    "rel_close kc C p" by (rule approxD)
  from m obtain q where q: "m = Finite q" "0 < q" "0 < M" "2 powi im \<le> q" "q \<le> 2 powi jm"
    "rel_close km M q" by (rule approxD)
  show "\<not> deq c (Finite 0)" "\<not> deq m (Finite 0)"
    using p(2) q(2) by (simp_all add: p(1) q(1) deq_finite)
  have e40: "ee ^ (kc + km) \<le> 3 / 2" using k by (rule ee_pow_le)
  have pq: "p \<le> 6755399441055744 * q"
  proof -
    have "p \<le> C * ee ^ kc" using p(6) by (simp add: rel_close_def)
    also have "\<dots> \<le> (2 ^ 52 * M) * ee ^ kc" using b(1) ee_pow(3) by (rule mult_right_mono)
    also have "\<dots> \<le> (2 ^ 52 * (q * ee ^ km)) * ee ^ kc"
    proof -
      have "M \<le> q * ee ^ km" using q(6) by (simp add: rel_close_def)
      then have "2 ^ 52 * M \<le> 2 ^ 52 * (q * ee ^ km)" by (intro mult_left_mono) simp_all
      then show ?thesis using ee_pow(3) by (rule mult_right_mono)
    qed
    also have "\<dots> = (2 ^ 52 * q) * ee ^ (kc + km)" by (simp add: power_add mult_ac)
    also have "\<dots> \<le> (2 ^ 52 * q) * (3 / 2)"
      using e40 by (rule mult_left_mono) (use q(2) in simp)
    finally show ?thesis by simp
  qed
  have qp: "q \<le> 6755399441055744 * p"
  proof -
    have "q \<le> M * ee ^ km" using q(6) by (simp add: rel_close_def)
    also have "\<dots> \<le> (2 ^ 52 * C) * ee ^ km" using b(2) ee_pow(3) by (rule mult_right_mono)
    also have "\<dots> \<le> (2 ^ 52 * (p * ee ^ kc)) * ee ^ km"
    proof -
      have "C \<le> p * ee ^ kc" using p(6) by (simp add: rel_close_def)
      then have "2 ^ 52 * C \<le> 2 ^ 52 * (p * ee ^ kc)" by (intro mult_left_mono) simp_all
      then show ?thesis using ee_pow(3) by (rule mult_right_mono)
    qed
    also have "\<dots> = (2 ^ 52 * p) * ee ^ (kc + km)" by (simp add: power_add mult_ac)
    also have "\<dots> \<le> (2 ^ 52 * p) * (3 / 2)"
      using e40 by (rule mult_left_mono) (use p(2) in simp)
    finally show ?thesis by simp
  qed
  have lo: "2 powi (- 1022) \<le> p + q"
  proof -
    have "(2::rat) powi (- 1022) \<le> 2 powi ic" using r(1) by (simp only: p2_le_iff)
    then show ?thesis using p(4) q(2) by linarith
  qed
  have hi: "p + q \<le> 2 powi 1023"
  proof -
    have "(2::rat) powi jc \<le> 2 powi 1022" using r(2) by (simp only: p2_le_iff)
    then have 1: "p \<le> 2 powi 1022" using p(5) by linarith
    have "(2::rat) powi jm \<le> 2 powi 1022" using r(3) by (simp only: p2_le_iff)
    then have 2: "q \<le> 2 powi 1022" using q(5) by linarith
    have i: "(1023::int) - 1 = 1022" by simp
    have "(2::rat) powi 1023 = 2 powi 1022 + 2 powi 1022" using p2_double[of 1023] unfolding i .
    then show ?thesis using 1 2 by linarith
  qed
  define z where "z = round_mag (p + q)"
  have s: "dadd (Finite p) (Finite q) = Finite z"
    using dadd_finite_nonneg[of p q] fl_normal(1)[OF lo hi, of False] p(2) q(2)
    by (simp add: z_def)
  have "\<bar>z - (p + q)\<bar> \<le> (p + q) * 2 powi (- 53)" unfolding z_def by (rule fl_normal(4)[OF lo hi])
  moreover have "(2::rat) powi (- 53) = 1 / 9007199254740992" by simp
  ultimately have e: "\<bar>z - (p + q)\<bar> \<le> (p + q) * (1 / 9007199254740992)" by simp
  have "p < z" using e pq q(2) by (rule rounded_sum_exceeds)
  moreover have "q < z" using e qp p(2) by (intro rounded_sum_exceeds[of z q p]) (simp_all add: add.commute)
  ultimately show "dlt (dmax c m) (dadd c m)" by (simp add: p(1) q(1) s dmax_finite dlt_finite)
qed

lemma cross_le:
  fixes a b c d :: rat
  assumes "0 < b" "0 < d" "a * d \<le> c * b"
  shows "a / b \<le> c / d"
  using assms by (simp add: field_simps)

lemma ideal_balance:
  fixes b d f w1 w2 w3 P H L :: rat
  assumes dims: "1 \<le> b" "b \<le> 2 ^ 53" "1 \<le> d" "d \<le> 2 ^ 53" "1 \<le> f" "f \<le> 2 ^ 53"
    and w: "1 / 2 \<le> w1" "w1 \<le> 4" "1 / 2 \<le> w2" "w2 \<le> 4" "1 / 2 \<le> w3" "w3 \<le> 4"
    and c: "0 < H" "12 * H \<le> P" "P \<le> 2 ^ 13 * H" "1 \<le> L" "L \<le> 3 / 2"
  shows "2 * b * d * f / P \<le> 2 ^ 52 * ((b * d * w1 + d * f * w2 + b * f * w3) / H / L)"
    and "(b * d * w1 + d * f * w2 + b * f * w3) / H / L \<le> 2 ^ 52 * (2 * b * d * f / P)"
proof -
  define K :: rat where "K = 2 ^ 52"
  define t where "t = b * d * f"
  define n where "n = b * d * w1 + d * f * w2 + b * f * w3"
  have P: "0 < P" using c(1,2) by linarith
  have HL: "0 < H * L" using c(1,4) by simp
  have bd: "0 < b * d" using dims by simp
  have t: "0 < t" using dims by (simp add: t_def)
  have n1: "b * d * (1 / 2) \<le> n"
  proof -
    have "b * d * (1 / 2) \<le> b * d * w1" using w(1) bd by (intro mult_left_mono) simp_all
    moreover have "0 \<le> d * f * w2" using dims w by simp
    moreover have "0 \<le> b * f * w3" using dims w by simp
    ultimately show ?thesis unfolding n_def by linarith
  qed
  have n2: "n \<le> 12 * t"
  proof -
    have 1: "b * d * w1 \<le> t * 4"
    proof -
      have "b * d * 1 \<le> b * d * f" using dims(5) bd by (intro mult_left_mono) simp_all
      then have "b * d \<le> t" by (simp add: t_def)
      then show ?thesis using w(1,2) bd t by (intro mult_mono) simp_all
    qed
    have 2: "d * f * w2 \<le> t * 4"
    proof -
      have "1 * (d * f) \<le> b * (d * f)" using dims by (intro mult_right_mono) simp_all
      then have "d * f \<le> t" by (simp add: t_def mult.assoc)
      moreover have "0 \<le> d * f" using dims by simp
      ultimately show ?thesis using w(3,4) t by (intro mult_mono) simp_all
    qed
    have 3: "b * f * w3 \<le> t * 4"
    proof -
      have "b * 1 * f \<le> b * d * f" using dims by (intro mult_right_mono mult_left_mono) simp_all
      then have "b * f \<le> t" by (simp add: t_def)
      moreover have "0 \<le> b * f" using dims by simp
      ultimately show ?thesis using w(5,6) t by (intro mult_mono) simp_all
    qed
    show ?thesis unfolding n_def using 1 2 3 by linarith
  qed
  \<comment> \<open>compute time against memory time\<close>
  have fHL: "f * (H * L) \<le> 2 ^ 53 * (H * (3 / 2))"
    using dims(6) c(1,4,5) by (intro mult_mono) simp_all
  have "(2 * f) * (H * L) = 2 * (f * (H * L))" by simp
  also have "\<dots> \<le> 2 * (2 ^ 53 * (H * (3 / 2)))" using fHL by (rule mult_left_mono) simp
  also have "\<dots> = 2 ^ 51 * (12 * H)" by simp
  also have "\<dots> \<le> 2 ^ 51 * P" using c(2) by (rule mult_left_mono) simp
  also have "\<dots> = (K * (1 / 2)) * P" by (simp add: K_def)
  finally have "(2 * f) * (H * L) \<le> (K * (1 / 2)) * P" .
  then have "(2 * f) / P \<le> (K * (1 / 2)) / (H * L)" using P HL by (intro cross_le)
  then have "(b * d) * ((2 * f) / P) \<le> (b * d) * ((K * (1 / 2)) / (H * L))"
    using bd by (intro mult_left_mono) simp_all
  also have "\<dots> = K * ((b * d * (1 / 2)) / (H * L))" by simp
  also have "\<dots> \<le> K * (n / (H * L))"
    using n1 HL by (intro mult_left_mono divide_right_mono) (simp_all add: K_def)
  finally have "(b * d) * ((2 * f) / P) \<le> K * (n / (H * L))" .
  then show "2 * b * d * f / P \<le> 2 ^ 52 * ((b * d * w1 + d * f * w2 + b * f * w3) / H / L)"
    by (simp add: K_def n_def mult_ac)
  \<comment> \<open>memory time against compute time\<close>
  have "n / (H * L) \<le> (12 * t) / (H * L)" using n2 HL by (intro divide_right_mono) simp_all
  also have "\<dots> \<le> (12 * t) / H"
  proof -
    have "H * 1 \<le> H * L" using c(1,4) by (intro mult_left_mono) simp_all
    then have "H \<le> H * L" by simp
    then show ?thesis using t c(1) by (intro divide_left_mono) simp_all
  qed
  also have "\<dots> \<le> (K * 2 * t) / P"
  proof (rule cross_le)
    show "0 < H" by (rule c(1))
    show "0 < P" by (rule P)
    have "12 * P \<le> 12 * (2 ^ 13 * H)" using c(3) by simp
    also have "\<dots> \<le> K * 2 * H" using c(1) by (simp add: K_def)
    finally have "12 * P \<le> K * 2 * H" .
    then have "t * (12 * P) \<le> t * (K * 2 * H)" using t by (intro mult_left_mono) simp_all
    then show "12 * t * P \<le> K * 2 * t * H" by (simp add: mult_ac)
  qed
  finally have "n / (H * L) \<le> (K * 2 * t) / P" .
  then show "(b * d * w1 + d * f * w2 + b * f * w3) / H / L \<le> 2 ^ 52 * (2 * b * d * f / P)"
    by (simp add: K_def n_def t_def mult_ac)
qed


lemma TPUv5e_peak:
  "approx 0 47 49
     (val (if t = int8 then TPUv5e_flopsPerSecondINT8 else TPUv5e_flopsPerSecondBF16))
     (if t = int8 then TPUv5e_flopsPerSecondINT8 else TPUv5e_flopsPerSecondBF16)"
  "12 * val TPUv5e_hbmBandwidth
     \<le> val (if t = int8 then TPUv5e_flopsPerSecondINT8 else TPUv5e_flopsPerSecondBF16)"
  "val (if t = int8 then TPUv5e_flopsPerSecondINT8 else TPUv5e_flopsPerSecondBF16)
     \<le> 2 ^ 13 * val TPUv5e_hbmBandwidth"
  by (simp_all add: TPUv5e_flopsPerSecondINT8_def TPUv5e_flopsPerSecondBF16_def
      TPUv5e_hbmBandwidth_def val_def approx_const)

lemma TPUv5e_hbm: "approx 0 39 40 (val TPUv5e_hbmBandwidth) TPUv5e_hbmBandwidth"
  by (simp add: TPUv5e_hbmBandwidth_def val_def approx_const)

lemma H100_peak:
  "approx 0 45 52 (val (H100_flopsPerSecond t)) (H100_flopsPerSecond t)"
  "12 * val H100_hbmBandwidth \<le> val (H100_flopsPerSecond t)"
  "val (H100_flopsPerSecond t) \<le> 2 ^ 13 * val H100_hbmBandwidth"
  by (cases t; simp add: H100_flopsPerSecondBF16_def H100_flopsPerSecondFP32_def
      H100_flopsPerSecondINT8_def H100_flopsPerSecondFP8_def H100_hbmBandwidth_def val_def
      approx_const)+

lemma H100_hbm: "approx 0 41 42 (val H100_hbmBandwidth) H100_hbmBandwidth"
  by (simp add: H100_hbmBandwidth_def val_def approx_const)

lemma totalFLOPs_matmul:
  assumes "calculateFLOPs m = Inr x" "shape (lhs m) = [B, D]" "shape (rhs m) = [D', F]"
  shows "x = dmul (dmul (dmul (Finite 2) B) D) F"
  using assms by (simp add: calculateFLOPs_def Let_def idx_def split: if_splits)

lemma TPUv5e_times:
  assumes s: "TPUv5e_calculateSingleNodeMetrics m = Inr s"
    and sh: "shape (lhs m) = [B, D]" "shape (rhs m) = [D', F]"
    and a: "approx 0 0 53 b B" "approx 0 0 53 d D" "approx 0 0 53 d' D'" "approx 0 0 53 f F"
  shows "approx 4 (- 48) 113
           (2 * b * d * f
              / val (if dtype (lhs m) = int8 then TPUv5e_flopsPerSecondINT8
                     else TPUv5e_flopsPerSecondBF16))
           (computeTime s)"
    and "approx 6 (- 41) 71
           ((b * d * val (bytesPerElement (dtype (lhs m)))
              + d' * f * val (bytesPerElement (dtype (rhs m)))
              + b * f * val (bytesPerElement (output_dtype m))) / val TPUv5e_hbmBandwidth)
           (memoryTime s)"
proof -
  note f = TPUv5e_single_fields[OF s]
  have fl: "totalFLOPs s = dmul (dmul (dmul (Finite 2) B) D) F"
    using f(1) sh by (rule totalFLOPs_matmul)
  show "approx 4 (- 48) 113
           (2 * b * d * f
              / val (if dtype (lhs m) = int8 then TPUv5e_flopsPerSecondINT8
                     else TPUv5e_flopsPerSecondBF16))
           (computeTime s)"
    unfolding f(4) fl using flops_approx[OF a(1,2,4)] TPUv5e_peak(1)
    by (rule approx_div) simp_all
  show "approx 6 (- 41) 71
           ((b * d * val (bytesPerElement (dtype (lhs m)))
              + d' * f * val (bytesPerElement (dtype (rhs m)))
              + b * f * val (bytesPerElement (output_dtype m))) / val TPUv5e_hbmBandwidth)
           (memoryTime s)"
    unfolding f(5) f(2) using bytes_approx(1)[OF sh a] TPUv5e_hbm
    by (rule approx_div) simp_all
qed

lemma H100_times:
  assumes s: "H100_calculateSingleNodeMetrics m = Inr s"
    and sh: "shape (lhs m) = [B, D]" "shape (rhs m) = [D', F]"
    and a: "approx 0 0 53 b B" "approx 0 0 53 d D" "approx 0 0 53 d' D'" "approx 0 0 53 f F"
  shows "approx 4 (- 51) 115
           (2 * b * d * f / val (H100_flopsPerSecond (dtype (lhs m))))
           (computeTime s)"
    and "approx 7 (- 44) 69
           ((b * d * val (bytesPerElement (dtype (lhs m)))
              + d' * f * val (bytesPerElement (dtype (rhs m)))
              + b * f * val (bytesPerElement (output_dtype m))) / val H100_hbmBandwidth
              / val (l2CacheBenefit s))
           (effectiveMemoryTime s)"
    and "1 \<le> val (l2CacheBenefit s)" "val (l2CacheBenefit s) \<le> 3 / 2"
proof -
  note f = H100_single_fields[OF s]
  have fl: "totalFLOPs s = dmul (dmul (dmul (Finite 2) B) D) F"
    using f(1) sh by (rule totalFLOPs_matmul)
  show "approx 4 (- 51) 115
           (2 * b * d * f / val (H100_flopsPerSecond (dtype (lhs m))))
           (computeTime s)"
    unfolding f(4) fl using flops_approx[OF a(1,2,4)] H100_peak(1)
    by (rule approx_div) simp_all
  have mt: "approx 6 (- 43) 69
           ((b * d * val (bytesPerElement (dtype (lhs m)))
              + d' * f * val (bytesPerElement (dtype (rhs m)))
              + b * f * val (bytesPerElement (output_dtype m))) / val H100_hbmBandwidth)
           (memoryTime s)"
    unfolding f(5) f(2) using bytes_approx(1)[OF sh a] H100_hbm
    by (rule approx_div) simp_all
  show l: "1 \<le> val (l2CacheBenefit s)" "val (l2CacheBenefit s) \<le> 3 / 2"
    by (simp_all add: f(10) val_def)
  have "l2CacheBenefit s = Finite (val (l2CacheBenefit s))" by (simp add: f(10) val_def)
  moreover have "approx 0 0 1 (val (l2CacheBenefit s)) (Finite (val (l2CacheBenefit s)))"
    using l by (intro approx_const) simp_all
  ultimately have b: "approx 0 0 1 (val (l2CacheBenefit s)) (l2CacheBenefit s)" by simp
  show "approx 7 (- 44) 69
           ((b * d * val (bytesPerElement (dtype (lhs m)))
              + d' * f * val (bytesPerElement (dtype (rhs m)))
              + b * f * val (bytesPerElement (output_dtype m))) / val H100_hbmBandwidth
              / val (l2CacheBenefit s))
           (effectiveMemoryTime s)"
    unfolding f(11) using mt b by (rule approx_div) simp_all
qed

lemma nat_dim:
  assumes "1 \<le> n" "n \<le> 2 ^ 53"
  shows "1 \<le> (of_nat n :: rat)" "(of_nat n :: rat) \<le> 2 ^ 53"
proof -
  show "1 \<le> (of_nat n :: rat)" using assms(1) by simp
  have "(of_nat n :: rat) \<le> of_nat (2 ^ 53)" using assms(2) by (simp only: of_nat_le_iff)
  then show "(of_nat n :: rat) \<le> 2 ^ 53" by simp
qed

lemma TPUv5e_strict:
  assumes s: "TPUv5e_calculateSingleNodeMetrics m = Inr s"
    and sh: "shape (lhs m) = [Finite (of_nat nb), Finite (of_nat nd)]"
      "shape (rhs m) = [Finite (of_nat nd), Finite (of_nat nf)]"
    and n: "1 \<le> nb" "nb \<le> 2 ^ 53" "1 \<le> nd" "nd \<le> 2 ^ 53" "1 \<le> nf" "nf \<le> 2 ^ 53"
  shows "dlt (lowerBoundTime s) (upperBoundTime s)"
    and "\<not> deq (computeTime s) (Finite 0)" and "\<not> deq (memoryTime s) (Finite 0)"
proof -
  note f = TPUv5e_single_fields[OF s]
  note a = dim_approx[OF n(1,2)] dim_approx[OF n(3,4)] dim_approx[OF n(3,4)] dim_approx[OF n(5,6)]
  note t = TPUv5e_times[OF s sh a]
  have hp: "0 < val TPUv5e_hbmBandwidth" by (simp add: TPUv5e_hbmBandwidth_def val_def)
  note i = ideal_balance[OF nat_dim[OF n(1,2)] nat_dim[OF n(3,4)] nat_dim[OF n(5,6)]
      width_range[of "dtype (lhs m)"] width_range[of "dtype (rhs m)"]
      width_range[of "output_dtype m"] hp TPUv5e_peak(2,3)[of "dtype (lhs m)"], of 1]
  have i1: "2 * of_nat nb * of_nat nd * of_nat nf
        / val (if dtype (lhs m) = int8 then TPUv5e_flopsPerSecondINT8 else TPUv5e_flopsPerSecondBF16)
      \<le> 2 ^ 52 * ((of_nat nb * of_nat nd * val (bytesPerElement (dtype (lhs m)))
              + of_nat nd * of_nat nf * val (bytesPerElement (dtype (rhs m)))
              + of_nat nb * of_nat nf * val (bytesPerElement (output_dtype m)))
            / val TPUv5e_hbmBandwidth)"
    using i(1) by simp
  have i2: "(of_nat nb * of_nat nd * val (bytesPerElement (dtype (lhs m)))
              + of_nat nd * of_nat nf * val (bytesPerElement (dtype (rhs m)))
              + of_nat nb * of_nat nf * val (bytesPerElement (output_dtype m)))
            / val TPUv5e_hbmBandwidth
      \<le> 2 ^ 52 * (2 * of_nat nb * of_nat nd * of_nat nf
        / val (if dtype (lhs m) = int8 then TPUv5e_flopsPerSecondINT8 else TPUv5e_flopsPerSecondBF16))"
    using i(2) by simp
  note r = sum_exceeds_parts[OF t(1) t(2) _ _ _ _ i1 i2]
  show "dlt (lowerBoundTime s) (upperBoundTime s)" unfolding f(6) f(7) by (rule r(1)) simp_all
  show "\<not> deq (computeTime s) (Finite 0)" by (rule r(2)) simp_all
  show "\<not> deq (memoryTime s) (Finite 0)" by (rule r(3)) simp_all
qed

lemma H100_strict:
  assumes s: "H100_calculateSingleNodeMetrics m = Inr s"
    and sh: "shape (lhs m) = [Finite (of_nat nb), Finite (of_nat nd)]"
      "shape (rhs m) = [Finite (of_nat nd), Finite (of_nat nf)]"
    and n: "1 \<le> nb" "nb \<le> 2 ^ 53" "1 \<le> nd" "nd \<le> 2 ^ 53" "1 \<le> nf" "nf \<le> 2 ^ 53"
  shows "dlt (lowerBoundTime s) (upperBoundTime s)"
    and "\<not> deq (computeTime s) (Finite 0)" and "\<not> deq (effectiveMemoryTime s) (Finite 0)"
proof -
  note f = H100_single_fields[OF s]
  note a = dim_approx[OF n(1,2)] dim_approx[OF n(3,4)] dim_approx[OF n(3,4)] dim_approx[OF n(5,6)]
  note t = H100_times[OF s sh a]
  have hp: "0 < val H100_hbmBandwidth" by (simp add: H100_hbmBandwidth_def val_def)
  note i = ideal_balance[OF nat_dim[OF n(1,2)] nat_dim[OF n(3,4)] nat_dim[OF n(5,6)]
      width_range[of "dtype (lhs m)"] width_range[of "dtype (rhs m)"]
      width_range[of "output_dtype m"] hp H100_peak(2,3)[of "dtype (lhs m)"] t(3,4)]
  note r = sum_exceeds_parts[OF t(1) t(2) _ _ _ _ i]
  show "dlt (lowerBoundTime s) (upperBoundTime s)" unfolding f(6) f(7) by (rule r(1)) simp_all
  show "\<not> deq (computeTime s) (Finite 0)" by (rule r(2)) simp_all
  show "\<not> deq (effectiveMemoryTime s) (Finite 0)" by (rule r(3)) simp_all
qed

section \<open>Operations with a zero dimension\<close>

lemma zero_dim_flops:
  assumes "nb \<le> 2 ^ 53" "nd \<le> 2 ^ 53" "nf \<le> 2 ^ 53" "nb = 0 \<or> nd = 0 \<or> nf = 0"
  shows "dmul (dmul (dmul (Finite 2) (Finite (of_nat nb))) (Finite (of_nat nd))) (Finite (of_nat nf))
       = Finite 0"
proof -
  have two: "bounded 1 (Finite 2)" by (rule boundedI) simp_all
  note b = dim_bounded[OF assms(1)] dim_bounded[OF assms(2)] dim_bounded[OF assms(3)]
  have 1: "bounded 54 (dmul (Finite 2) (Finite (of_nat nb)))"
    using two b(1) by (rule bounded_mul) simp_all
  have 2: "bounded 107 (dmul (dmul (Finite 2) (Finite (of_nat nb))) (Finite (of_nat nd)))"
    using 1 b(2) by (rule bounded_mul) simp_all
  consider "nb = 0" | "nd = 0" | "nf = 0" using assms(4) by blast
  then show ?thesis
  proof cases
    case 1
    have "dmul (Finite 2) (Finite (of_nat nb)) = Finite 0" using dmul_zero(2)[OF two] by (simp add: 1)
    then show ?thesis by (simp add: dmul_zero(1)[OF b(2)] dmul_zero(1)[OF b(3)])
  next
    case 2
    have "dmul (dmul (Finite 2) (Finite (of_nat nb))) (Finite (of_nat nd)) = Finite 0"
      using dmul_zero(2)[OF \<open>bounded 54 (dmul (Finite 2) (Finite (of_nat nb)))\<close>] by (simp add: 2)
    then show ?thesis by (simp add: dmul_zero(1)[OF b(3)])
  next
    case 3
    show ?thesis
      using dmul_zero(2)[OF \<open>bounded 107 (dmul (dmul (Finite 2) (Finite (of_nat nb))) (Finite (of_nat nd)))\<close>]
      by (simp add: 3)
  qed
qed

lemma operand_bounded:
  assumes "bounded 53 B" "bounded 53 D"
  shows "bounded 108 (dmul (foldl (\<lambda>acc d. dmul acc d) (Finite 1) [B, D]) (bytesPerElement t))"
proof -
  have one: "bounded 0 (Finite 1)" by (rule boundedI) simp_all
  have 1: "bounded 53 (dmul (Finite 1) B)" using one assms(1) by (rule bounded_mul) simp_all
  have 2: "bounded 106 (dmul (dmul (Finite 1) B) D)" using 1 assms(2) by (rule bounded_mul) simp_all
  have "bounded 108 (dmul (dmul (dmul (Finite 1) B) D) (bytesPerElement t))"
    using 2 approx_bounded[OF width_approx] by (rule bounded_mul) simp_all
  then show ?thesis by simp
qed

lemma bytes_bounded:
  assumes sh: "shape (lhs m) = [B, D]" "shape (rhs m) = [D', F]"
    and a: "bounded 53 B" "bounded 53 D" "bounded 53 D'" "bounded 53 F"
  shows "bounded 110 (totalBytes (calculateBytes m))"
proof -
  note l = operand_bounded[OF a(1,2), of "dtype (lhs m)"]
  note r = operand_bounded[OF a(3,4), of "dtype (rhs m)"]
  have 1: "bounded 106 (dmul B F)" using a(1,4) by (rule bounded_mul) simp_all
  have o: "bounded 108 (dmul (dmul B F) (bytesPerElement (output_dtype m)))"
    using 1 approx_bounded[OF width_approx] by (rule bounded_mul) simp_all
  have lr: "bounded 109
      (dadd (dmul (foldl (\<lambda>acc d. dmul acc d) (Finite 1) [B, D]) (bytesPerElement (dtype (lhs m))))
            (dmul (foldl (\<lambda>acc d. dmul acc d) (Finite 1) [D', F]) (bytesPerElement (dtype (rhs m)))))"
    using l r by (rule bounded_add) simp_all
  have t: "totalBytes (calculateBytes m)
      = dadd (dadd (dmul (foldl (\<lambda>acc d. dmul acc d) (Finite 1) [B, D]) (bytesPerElement (dtype (lhs m))))
            (dmul (foldl (\<lambda>acc d. dmul acc d) (Finite 1) [D', F]) (bytesPerElement (dtype (rhs m)))))
          (dmul (dmul B F) (bytesPerElement (output_dtype m)))"
    by (simp add: calculateBytes_def Let_def sh idx_def)
  show ?thesis unfolding t using lr o by (rule bounded_add) simp_all
qed

lemma TPUv5e_zero_dim:
  assumes s: "TPUv5e_calculateSingleNodeMetrics m = Inr s"
    and sh: "shape (lhs m) = [Finite (of_nat nb), Finite (of_nat nd)]"
      "shape (rhs m) = [Finite (of_nat nd), Finite (of_nat nf)]"
    and n: "nb \<le> 2 ^ 53" "nd \<le> 2 ^ 53" "nf \<le> 2 ^ 53" "nb = 0 \<or> nd = 0 \<or> nf = 0"
  shows "computeTime s = Finite 0" and "dle (Finite 0) (memoryTime s)"
proof -
  note f = TPUv5e_single_fields[OF s]
  have "totalFLOPs s = dmul (dmul (dmul (Finite 2) (Finite (of_nat nb))) (Finite (of_nat nd)))
      (Finite (of_nat nf))"
    using f(1) sh by (rule totalFLOPs_matmul)
  then have fl: "totalFLOPs s = Finite 0" using zero_dim_flops[OF n] by simp
  show "computeTime s = Finite 0" unfolding f(4) fl using TPUv5e_peak(1) by (rule ddiv_zero)
  note b = dim_bounded[OF n(1)] dim_bounded[OF n(2)] dim_bounded[OF n(2)] dim_bounded[OF n(3)]
  have "bounded 71 (memoryTime s)"
    unfolding f(5) f(2) using bytes_bounded[OF sh b] TPUv5e_hbm by (rule bounded_div) simp_all
  then show "dle (Finite 0) (memoryTime s)" by (rule bounded_nonneg)
qed

lemma H100_zero_dim:
  assumes s: "H100_calculateSingleNodeMetrics m = Inr s"
    and sh: "shape (lhs m) = [Finite (of_nat nb), Finite (of_nat nd)]"
      "shape (rhs m) = [Finite (of_nat nd), Finite (of_nat nf)]"
    and n: "nb \<le> 2 ^ 53" "nd \<le> 2 ^ 53" "nf \<le> 2 ^ 53" "nb = 0 \<or> nd = 0 \<or> nf = 0"
  shows "computeTime s = Finite 0" and "dle (Finite 0) (effectiveMemoryTime s)"
proof -
  note f = H100_single_fields[OF s]
  have "totalFLOPs s = dmul (dmul (dmul (Finite 2) (Finite (of_nat nb))) (Finite (of_nat nd)))
      (Finite (of_nat nf))"
    using f(1) sh by (rule totalFLOPs_matmul)
  then have fl: "totalFLOPs s = Finite 0" using zero_dim_flops[OF n] by simp
  show "computeTime s = Finite 0" unfolding f(4) fl using H100_peak(1) by (rule ddiv_zero)
  note b = dim_bounded[OF n(1)] dim_bounded[OF n(2)] dim_bounded[OF n(2)] dim_bounded[OF n(3)]
  have mt: "bounded 69 (memoryTime s)"
    unfolding f(5) f(2) using bytes_bounded[OF sh b] H100_hbm by (rule bounded_div) simp_all
  have l: "1 \<le> val (l2CacheBenefit s)" "val (l2CacheBenefit s) \<le> 3 / 2"
    by (simp_all add: f(10) val_def)
  have "l2CacheBenefit s = Finite (val (l2CacheBenefit s))" by (simp add: f(10) val_def)
  moreover have "approx 0 0 1 (val (l2CacheBenefit s)) (Finite (val (l2CacheBenefit s)))"
    using l by (intro approx_const) simp_all
  ultimately have "approx 0 0 1 (val (l2CacheBenefit s)) (l2CacheBenefit s)" by simp
  then have "bounded 69 (effectiveMemoryTime s)"
    unfolding f(11) using mt by (intro bounded_div[where j = 69 and i' = 0]) simp_all
  then show "dle (Finite 0) (effectiveMemoryTime s)" by (rule bounded_nonneg)
qed

lemma dlt_strict: "dlt x y \<Longrightarrow> dle x y \<and> \<not> deq x y"
  by (auto simp: dle_def deq_def dlt_def split: if_splits)


lemma TPUv5e_integer_dims:
  assumes s: "TPUv5e_calculateSingleNodeMetrics m = Inr s"
    and sh: "shape (lhs m) = [Finite (of_nat nb), Finite (of_nat nd)]"
      "shape (rhs m) = [Finite (of_nat nd), Finite (of_nat nf)]"
    and n: "nb \<le> 2 ^ 53" "nd \<le> 2 ^ 53" "nf \<le> 2 ^ 53"
  shows "dle (lowerBoundTime s) (upperBoundTime s)
     \<and> (deq (lowerBoundTime s) (upperBoundTime s)
          \<longleftrightarrow> deq (computeTime s) (Finite 0) \<or> deq (memoryTime s) (Finite 0))"
proof (cases "nb = 0 \<or> nd = 0 \<or> nf = 0")
  case True
  note z = TPUv5e_zero_dim[OF s sh n True]
  have c: "dle (Finite 0) (computeTime s)" "deq (computeTime s) (Finite 0)"
    by (simp_all add: z(1) dle_finite deq_finite)
  show ?thesis using time_bounds_nonneg[of m s] s c z(2) by blast
next
  case False
  then have p: "1 \<le> nb" "1 \<le> nd" "1 \<le> nf" by simp_all
  note r = TPUv5e_strict[OF s sh p(1) n(1) p(2) n(2) p(3) n(3)]
  show ?thesis using dlt_strict[OF r(1)] r(2,3) by blast
qed

lemma H100_integer_dims:
  assumes s: "H100_calculateSingleNodeMetrics m = Inr s"
    and sh: "shape (lhs m) = [Finite (of_nat nb), Finite (of_nat nd)]"
      "shape (rhs m) = [Finite (of_nat nd), Finite (of_nat nf)]"
    and n: "nb \<le> 2 ^ 53" "nd \<le> 2 ^ 53" "nf \<le> 2 ^ 53"
  shows "dle (lowerBoundTime s) (upperBoundTime s)
     \<and> (deq (lowerBoundTime s) (upperBoundTime s)
          \<longleftrightarrow> deq (computeTime s) (Finite 0) \<or> deq (effectiveMemoryTime s) (Finite 0))"
proof (cases "nb = 0 \<or> nd = 0 \<or> nf = 0")
  case True
  note z = H100_zero_dim[OF s sh n True]
  have c: "dle (Finite 0) (computeTime s)" "deq (computeTime s) (Finite 0)"
    by (simp_all add: z(1) dle_finite deq_finite)
  show ?thesis using time_bounds_nonneg[of m _ _ _ _ _ s] s c z(2) by blast
next
  case False
  then have p: "1 \<le> nb" "1 \<le> nd" "1 \<le> nf" by simp_all
  note r = H100_strict[OF s sh p(1) n(1) p(2) n(2) p(3) n(3)]
  show ?thesis using dlt_strict[OF r(1)] r(2,3) by blast
qed


section \<open>Lower and upper bound of the execution time\<close>

text \<open>
  C2 (as amended). On both profiles \<open>lowerBoundTime\<close> is the maximum and \<open>upperBoundTime\<close>
  the sum of the compute time and the effective memory time (the memory time itself on
  the TPU). For every multiplication of a \<open>B\<close> by \<open>D\<close> and a \<open>D\<close> by \<open>F\<close> matrix whose
  dimensions are non-negative integers up to \<open>2^53\<close>, the lower bound is at most the upper
  bound, and the two are equal if and only if the compute time or the effective memory
  time is zero. More generally, whenever both times are non-negative numbers, as they are
  for every operation whose four dimensions are positive, the lower bound is at most the
  upper bound, and the two are equal when either time is zero.
\<close>

theorem time_bounds:
  "(TPUv5e_calculateSingleNodeMetrics m = Inr s \<longrightarrow>
      lowerBoundTime s = dmax (computeTime s) (memoryTime s)
    \<and> upperBoundTime s = dadd (computeTime s) (memoryTime s)
    \<and> (shape (lhs m) = [Finite (of_nat nb), Finite (of_nat nd)]
          \<and> shape (rhs m) = [Finite (of_nat nd), Finite (of_nat nf)]
          \<and> nb \<le> 2 ^ 53 \<and> nd \<le> 2 ^ 53 \<and> nf \<le> 2 ^ 53 \<longrightarrow>
          dle (lowerBoundTime s) (upperBoundTime s)
        \<and> (deq (lowerBoundTime s) (upperBoundTime s)
              \<longleftrightarrow> deq (computeTime s) (Finite 0) \<or> deq (memoryTime s) (Finite 0)))
    \<and> (dle (Finite 0) (computeTime s) \<and> dle (Finite 0) (memoryTime s) \<longrightarrow>
          dle (lowerBoundTime s) (upperBoundTime s)
        \<and> (deq (computeTime s) (Finite 0) \<or> deq (memoryTime s) (Finite 0) \<longrightarrow>
              deq (lowerBoundTime s) (upperBoundTime s)))
    \<and> (shape (lhs m) = [Finite b, Finite d] \<and> shape (rhs m) = [Finite d', Finite f]
          \<and> 0 < b \<and> 0 < d \<and> 0 < d' \<and> 0 < f \<longrightarrow>
          dle (Finite 0) (computeTime s) \<and> dle (Finite 0) (memoryTime s)))
   \<and> (H100_calculateSingleNodeMetrics m = Inr g \<longrightarrow>
      lowerBoundTime g = dmax (computeTime g) (effectiveMemoryTime g)
    \<and> upperBoundTime g = dadd (computeTime g) (effectiveMemoryTime g)
    \<and> (shape (lhs m) = [Finite (of_nat nb), Finite (of_nat nd)]
          \<and> shape (rhs m) = [Finite (of_nat nd), Finite (of_nat nf)]
          \<and> nb \<le> 2 ^ 53 \<and> nd \<le> 2 ^ 53 \<and> nf \<le> 2 ^ 53 \<longrightarrow>
          dle (lowerBoundTime g) (upperBoundTime g)
        \<and> (deq (lowerBoundTime g) (upperBoundTime g)
              \<longleftrightarrow> deq (computeTime g) (Finite 0) \<or> deq (effectiveMemoryTime g) (Finite 0)))
    \<and> (dle (Finite 0) (computeTime g) \<and> dle (Finite 0) (effectiveMemoryTime g) \<longrightarrow>
          dle (lowerBoundTime g) (upperBoundTime g)
        \<and> (deq (computeTime g) (Finite 0) \<or> deq (effectiveMemoryTime g) (Finite 0) \<longrightarrow>
              deq (lowerBoundTime g) (upperBoundTime g)))
    \<and> (shape (lhs m) = [Finite b, Finite d] \<and> shape (rhs m) = [Finite d', Finite f]
          \<and> 0 < b \<and> 0 < d \<and> 0 < d' \<and> 0 < f \<longrightarrow>
          dle (Finite 0) (computeTime g) \<and> dle (Finite 0) (effectiveMemoryTime g)))"
  using time_bounds_nonneg[of m s b d d' f g] TPUv5e_integer_dims[of m s nb nd nf]
    H100_integer_dims[of m g nb nd nf]
  by blast


theorem time_bounds_witness:
  "TPUv5e_calculateSingleNodeMetrics (sampleMatrix ''a'' 0 256 256 bf16)
     = Inr (projr (TPUv5e_calculateSingleNodeMetrics (sampleMatrix ''a'' 0 256 256 bf16)))
   \<and> H100_calculateSingleNodeMetrics (sampleMatrix ''a'' 0 256 256 bf16)
     = Inr (projr (H100_calculateSingleNodeMetrics (sampleMatrix ''a'' 0 256 256 bf16)))
   \<and> deq (computeTime (projr (TPUv5e_calculateSingleNodeMetrics (sampleMatrix ''a'' 0 256 256 bf16))))
         (Finite 0)
   \<and> dle (Finite 0)
         (memoryTime (projr (TPUv5e_calculateSingleNodeMetrics (sampleMatrix ''a'' 0 256 256 bf16))))
   \<and> deq (lowerBoundTime (projr (TPUv5e_calculateSingleNodeMetrics (sampleMatrix ''a'' 0 256 256 bf16))))
         (upperBoundTime (projr (TPUv5e_calculateSingleNodeMetrics (sampleMatrix ''a'' 0 256 256 bf16))))
   \<and> deq (computeTime (projr (H100_calculateSingleNodeMetrics (sampleMatrix ''a'' 0 256 256 bf16))))
         (Finite 0)
   \<and> dle (Finite 0)
         (effectiveMemoryTime (projr (H100_calculateSingleNodeMetrics (sampleMatrix ''a'' 0 256 256 bf16))))
   \<and> deq (lowerBoundTime (projr (H100_calculateSingleNodeMetrics (sampleMatrix ''a'' 0 256 256 bf16))))
         (upperBoundTime (projr (H100_calculateSingleNodeMetrics (sampleMatrix ''a'' 0 256 256 bf16))))
   \<and> shape (lhs (sampleMatrix ''a'' 256 256 256 bf16)) = [Finite 256, Finite 256]
   \<and> shape (rhs (sampleMatrix ''a'' 256 256 256 bf16)) = [Finite 256, Finite 256]
   \<and> (0::rat) < 256
   \<and> dle (lowerBoundTime (projr (TPUv5e_calculateSingleNodeMetrics (sampleMatrix ''a'' 256 256 256 bf16))))
         (upperBoundTime (projr (TPUv5e_calculateSingleNodeMetrics (sampleMatrix ''a'' 256 256 256 bf16))))
   \<and> dle (lowerBoundTime (projr (H100_calculateSingleNodeMetrics (sampleMatrix ''a'' 256 256 256 bf16))))
         (upperBoundTime (projr (H100_calculateSingleNodeMetrics (sampleMatrix ''a'' 256 256 256 bf16))))
   \<and> shape (lhs (sampleMatrix ''a'' 256 256 256 bf16)) = [Finite (of_nat 256), Finite (of_nat 256)]
   \<and> shape (rhs (sampleMatrix ''a'' 256 256 256 bf16)) = [Finite (of_nat 256), Finite (of_nat 256)]
   \<and> (256::nat) \<le> 2 ^ 53
   \<and> (deq (lowerBoundTime (projr (TPUv5e_calculateSingleNodeMetrics (sampleMatrix ''a'' 256 256 256 bf16))))
          (upperBoundTime (projr (TPUv5e_calculateSingleNodeMetrics (sampleMatrix ''a'' 256 256 256 bf16))))
        \<longleftrightarrow> deq (computeTime (projr (TPUv5e_calculateSingleNodeMetrics (sampleMatrix ''a'' 256 256 256 bf16))))
              (Finite 0)
          \<or> deq (memoryTime (projr (TPUv5e_calculateSingleNodeMetrics (sampleMatrix ''a'' 256 256 256 bf16))))
              (Finite 0))
   \<and> (deq (lowerBoundTime (projr (H100_calculateSingleNodeMetrics (sampleMatrix ''a'' 256 256 256 bf16))))
          (upperBoundTime (projr (H100_calculateSingleNodeMetrics (sampleMatrix ''a'' 256 256 256 bf16))))
        \<longleftrightarrow> deq (computeTime (projr (H100_calculateSingleNodeMetrics (sampleMatrix ''a'' 256 256 256 bf16))))
              (Finite 0)
          \<or> deq (effectiveMemoryTime (projr (H100_calculateSingleNodeMetrics (sampleMatrix ''a'' 256 256 256 bf16))))
              (Finite 0))"
proof -
  let ?z = "sampleMatrix ''a'' 0 256 256 bf16"
  let ?m = "sampleMatrix ''a'' 256 256 256 bf16"
  let ?sz = "projr (TPUv5e_calculateSingleNodeMetrics ?z)"
  let ?gz = "projr (H100_calculateSingleNodeMetrics ?z)"
  let ?sm = "projr (TPUv5e_calculateSingleNodeMetrics ?m)"
  let ?gm = "projr (H100_calculateSingleNodeMetrics ?m)"
  have sz: "TPUv5e_calculateSingleNodeMetrics ?z = Inr ?sz"
    by (rule TPUv5e_single_projr) (rule sample_type)
  have gz: "H100_calculateSingleNodeMetrics ?z = Inr ?gz"
    by (rule H100_single_projr) (rule sample_type)
  have sm: "TPUv5e_calculateSingleNodeMetrics ?m = Inr ?sm"
    by (rule TPUv5e_single_projr) (rule sample_type)
  have gm: "H100_calculateSingleNodeMetrics ?m = Inr ?gm"
    by (rule H100_single_projr) (rule sample_type)
  have e1: "ddiv (Finite 0) TPUv5e_flopsPerSecondBF16 = Finite 0"
    "ddiv (Finite 0) H100_flopsPerSecondBF16 = Finite 0"
    by (simp_all add: num_ev TPUv5e_flopsPerSecondBF16_def H100_flopsPerSecondBF16_def)
  have e2: "ddiv (Finite 131072) TPUv5e_hbmBandwidth = Finite (3056642072309581 / 18889465931478580854784)"
    by (simp add: num_ev TPUv5e_hbmBandwidth_def)
  have e3: "dle (Finite 131072) H100_l2CacheSize" by (simp add: num_ev H100_l2CacheSize_def)
  have e4: "ddiv (ddiv (Finite 131072) H100_hbmBandwidth) (Finite (3 / 2))
      = Finite (985424906893835 / 37778931862957161709568)"
    by (simp add: num_ev H100_hbmBandwidth_def)
  have tz: "totalFLOPs ?sz = Finite 0" "totalFLOPs ?gz = Finite 0"
    using TPUv5e_single_fields(1)[OF sz] H100_single_fields(1)[OF gz]
    by (simp_all add: sample_zero_rows)
  have dz: "dtype (lhs ?z) = bf16" by (simp add: sample_defs)
  have cz: "computeTime ?sz = Finite 0"
    using TPUv5e_single_fields(4)[OF sz] by (simp add: tz e1 dz)
  have mz: "memoryTime ?sz = Finite (3056642072309581 / 18889465931478580854784)"
    using TPUv5e_single_fields(5)[OF sz] TPUv5e_single_fields(2)[OF sz]
    by (simp add: sample_zero_rows e2)
  have cg: "computeTime ?gz = Finite 0"
    using H100_single_fields(4)[OF gz] by (simp add: tz e1 dz)
  have mg: "effectiveMemoryTime ?gz = Finite (985424906893835 / 37778931862957161709568)"
    using H100_single_fields(5,9,10,11)[OF gz] H100_single_fields(2)[OF gz]
    by (simp add: sample_zero_rows e3 e4)
  have sh: "shape (lhs ?m) = [Finite 256, Finite 256]" "shape (rhs ?m) = [Finite 256, Finite 256]"
    by (simp_all add: sample_defs)
  note tz = time_bounds[of ?z ?sz 0 256 256 1 1 1 1 ?gz]
  note tm = time_bounds[of ?m ?sm 256 256 256 256 256 256 256 ?gm]
  have shn: "shape (lhs ?m) = [Finite (of_nat 256), Finite (of_nat 256)]"
    "shape (rhs ?m) = [Finite (of_nat 256), Finite (of_nat 256)]"
    by (simp_all add: sample_defs)
  have le: "(256::nat) \<le> 2 ^ 53" by simp
  have i1: "deq (lowerBoundTime ?sm) (upperBoundTime ?sm)
      \<longleftrightarrow> deq (computeTime ?sm) (Finite 0) \<or> deq (memoryTime ?sm) (Finite 0)"
    using tm sm shn le by blast
  have i2: "deq (lowerBoundTime ?gm) (upperBoundTime ?gm)
      \<longleftrightarrow> deq (computeTime ?gm) (Finite 0) \<or> deq (effectiveMemoryTime ?gm) (Finite 0)"
    using tm gm shn le by blast
  have a1: "dle (Finite 0) (computeTime ?sz) \<and> dle (Finite 0) (memoryTime ?sz)"
    "deq (computeTime ?sz) (Finite 0) \<or> deq (memoryTime ?sz) (Finite 0)"
    by (simp_all add: cz mz deq_finite dle_finite)
  have a2: "dle (Finite 0) (computeTime ?gz) \<and> dle (Finite 0) (effectiveMemoryTime ?gz)"
    "deq (computeTime ?gz) (Finite 0) \<or> deq (effectiveMemoryTime ?gz) (Finite 0)"
    by (simp_all add: cg mg deq_finite dle_finite)
  have z1: "deq (lowerBoundTime ?sz) (upperBoundTime ?sz)"
    using tz sz a1 by blast
  have z2: "deq (lowerBoundTime ?gz) (upperBoundTime ?gz)"
    using tz gz a2 by blast
  have p1: "dle (Finite 0) (computeTime ?sm) \<and> dle (Finite 0) (memoryTime ?sm)"
    using tm sm sh by simp
  have p2: "dle (Finite 0) (computeTime ?gm) \<and> dle (Finite 0) (effectiveMemoryTime ?gm)"
    using tm gm sh by simp
  have m1: "dle (lowerBoundTime ?sm) (upperBoundTime ?sm)"
    using tm sm p1 by blast
  have m2: "dle (lowerBoundTime ?gm) (upperBoundTime ?gm)"
    using tm gm p2 by blast
  have "shape (lhs ?m) = [Finite (of_nat 256), Finite (of_nat 256)]
      \<and> shape (rhs ?m) = [Finite (of_nat 256), Finite (of_nat 256)] \<and> (256::nat) \<le> 2 ^ 53
      \<and> (deq (lowerBoundTime ?sm) (upperBoundTime ?sm)
          \<longleftrightarrow> deq (computeTime ?sm) (Finite 0) \<or> deq (memoryTime ?sm) (Finite 0))
      \<and> (deq (lowerBoundTime ?gm) (upperBoundTime ?gm)
          \<longleftrightarrow> deq (computeTime ?gm) (Finite 0) \<or> deq (effectiveMemoryTime ?gm) (Finite 0))"
    using shn le i1 i2 by (intro conjI)
  moreover have "TPUv5e_calculateSingleNodeMetrics ?z = Inr ?sz
      \<and> H100_calculateSingleNodeMetrics ?z = Inr ?gz
      \<and> deq (computeTime ?sz) (Finite 0) \<and> dle (Finite 0) (memoryTime ?sz)
      \<and> deq (lowerBoundTime ?sz) (upperBoundTime ?sz)
      \<and> deq (computeTime ?gz) (Finite 0) \<and> dle (Finite 0) (effectiveMemoryTime ?gz)
      \<and> deq (lowerBoundTime ?gz) (upperBoundTime ?gz)
      \<and> shape (lhs ?m) = [Finite 256, Finite 256] \<and> shape (rhs ?m) = [Finite 256, Finite 256]
      \<and> (0::rat) < 256
      \<and> dle (lowerBoundTime ?sm) (upperBoundTime ?sm)
      \<and> dle (lowerBoundTime ?gm) (upperBoundTime ?gm)"
    using sz gz sh z1 z2 m1 m2 by (simp add: cz mz cg mg deq_finite dle_finite)
  ultimately show ?thesis by (simp only: conj_assoc)
qed


text \<open>
  With all four dimensions \<open>2^64\<close> the memory time is absorbed by the sum: the bounds are
  equal though neither time is zero. With \<open>-1\<close> rows both times are negative and the
  upper bound is below the lower bound.
\<close>

theorem time_bounds_counterexample:
  "computeTime (projr (TPUv5e_calculateSingleNodeMetrics
       (sampleMatrix ''a'' 18446744073709551616 18446744073709551616 18446744073709551616 bf16)))
     = Finite 63726921171438383565312435629120729204654080
   \<and> memoryTime (projr (TPUv5e_calculateSingleNodeMetrics
       (sampleMatrix ''a'' 18446744073709551616 18446744073709551616 18446744073709551616 bf16)))
     = Finite 2520610125340284700954984448
   \<and> lowerBoundTime (projr (TPUv5e_calculateSingleNodeMetrics
       (sampleMatrix ''a'' 18446744073709551616 18446744073709551616 18446744073709551616 bf16)))
     = Finite 63726921171438383565312435629120729204654080
   \<and> upperBoundTime (projr (TPUv5e_calculateSingleNodeMetrics
       (sampleMatrix ''a'' 18446744073709551616 18446744073709551616 18446744073709551616 bf16)))
     = Finite 63726921171438383565312435629120729204654080
   \<and> lowerBoundTime (projr (TPUv5e_calculateSingleNodeMetrics (sampleMatrix ''a'' (- 1) 1 1 bf16)))
     = Finite (- (6434774620447865 / 633825300114114700748351602688))
   \<and> upperBoundTime (projr (TPUv5e_calculateSingleNodeMetrics (sampleMatrix ''a'' (- 1) 1 1 bf16)))
     = Finite (- (3069209991490143 / 1237940039285380274899124224))
   \<and> \<not> dle (lowerBoundTime (projr (TPUv5e_calculateSingleNodeMetrics (sampleMatrix ''a'' (- 1) 1 1 bf16))))
          (upperBoundTime (projr (TPUv5e_calculateSingleNodeMetrics (sampleMatrix ''a'' (- 1) 1 1 bf16))))"
proof -
  let ?h = "sampleMatrix ''a'' 18446744073709551616 18446744073709551616 18446744073709551616 bf16"
  let ?n = "sampleMatrix ''a'' (- 1) 1 1 bf16"
  let ?sh = "projr (TPUv5e_calculateSingleNodeMetrics ?h)"
  let ?sn = "projr (TPUv5e_calculateSingleNodeMetrics ?n)"
  have sh: "TPUv5e_calculateSingleNodeMetrics ?h = Inr ?sh"
    by (rule TPUv5e_single_projr) (rule sample_type)
  have sn: "TPUv5e_calculateSingleNodeMetrics ?n = Inr ?sn"
    by (rule TPUv5e_single_projr) (rule sample_type)
  have fh: "calculateFLOPs ?h = Inr (Finite 12554203470773361527671578846415332832204710888928069025792)"
    by (simp add: calculateFLOPs_def sample_defs num_ev)
  have bh: "totalBytes (calculateBytes ?h) = Finite 2041694201525630780780247644590609268736"
    by (simp add: calculateBytes_def sample_defs num_ev)
  have fn: "calculateFLOPs ?n = Inr (Finite (- 2))"
    by (simp add: calculateFLOPs_def sample_defs num_ev)
  have bn: "totalBytes (calculateBytes ?n) = Finite (- 2)"
    by (simp add: calculateBytes_def sample_defs num_ev)
  have ch: "ddiv (Finite 12554203470773361527671578846415332832204710888928069025792)
        TPUv5e_flopsPerSecondBF16 = Finite 63726921171438383565312435629120729204654080"
    by (simp add: num_ev TPUv5e_flopsPerSecondBF16_def)
  have mh: "ddiv (Finite 2041694201525630780780247644590609268736) TPUv5e_hbmBandwidth
      = Finite 2520610125340284700954984448"
    by (simp add: num_ev TPUv5e_hbmBandwidth_def)
  have ah: "dadd (Finite 63726921171438383565312435629120729204654080)
      (Finite 2520610125340284700954984448) = Finite 63726921171438383565312435629120729204654080"
    by (simp add: num_ev)
  have cn: "ddiv (Finite (- 2)) TPUv5e_flopsPerSecondBF16
      = Finite (- (6434774620447865 / 633825300114114700748351602688))"
    by (simp add: num_ev TPUv5e_flopsPerSecondBF16_def)
  have mn: "ddiv (Finite (- 2)) TPUv5e_hbmBandwidth
      = Finite (- (3056642072309581 / 1237940039285380274899124224))"
    by (simp add: num_ev TPUv5e_hbmBandwidth_def)
  have an: "dadd (Finite (- (6434774620447865 / 633825300114114700748351602688)))
      (Finite (- (3056642072309581 / 1237940039285380274899124224)))
      = Finite (- (3069209991490143 / 1237940039285380274899124224))"
    by (simp add: num_ev)
  have dt: "dtype (lhs ?h) = bf16" "dtype (lhs ?n) = bf16" by (simp_all add: sample_defs)
  note f = TPUv5e_single_fields[OF sh]
  note g = TPUv5e_single_fields[OF sn]
  have tf: "totalFLOPs ?sh = Finite 12554203470773361527671578846415332832204710888928069025792"
    "totalFLOPs ?sn = Finite (- 2)"
    using f(1) g(1) by (simp_all add: fh fn)
  have 1: "computeTime ?sh = Finite 63726921171438383565312435629120729204654080"
    using f(4) by (simp add: tf ch dt)
  have 2: "memoryTime ?sh = Finite 2520610125340284700954984448"
    unfolding f(5) f(2) by (simp add: bh mh)
  have 3: "computeTime ?sn = Finite (- (6434774620447865 / 633825300114114700748351602688))"
    using g(4) by (simp add: tf cn dt)
  have 4: "memoryTime ?sn = Finite (- (3056642072309581 / 1237940039285380274899124224))"
    unfolding g(5) g(2) by (simp add: bn mn)
  show ?thesis
    using f(6,7) g(6,7) by (simp add: 1 2 3 4 ah an dmax_finite dle_finite)
qed


section \<open>Floating-point operation count\<close>

lemma rel_close_abs:
  assumes "rel_close 3 a z" "0 < a"
  shows "\<bar>z - a\<bar> \<le> a * 2 powi (- 48)"
proof -
  define c :: rat where "c = 7 / 4503599627370496"
  have c: "0 \<le> c" "1 + c \<le> 2" "2 * c \<le> 2 powi (- 48)" by (simp_all add: c_def)
  have "ee ^ 3 \<le> 1 + (2 ^ 3 - 1) * 2 powi (- 52)"
    unfolding ee_def by (rule bernoulli_upper) simp_all
  also have "\<dots> = 1 + c" by (simp add: c_def)
  finally have e: "ee ^ 3 \<le> 1 + c" .
  have zp: "0 < z"
  proof -
    have "0 < z * ee ^ 3" using assms by (simp add: rel_close_def)
    then show ?thesis using ee_pow(2)[of 3] by (rule zero_less_mult_pos2)
  qed
  have "z \<le> a * ee ^ 3" using assms(1) by (simp add: rel_close_def)
  also have "\<dots> \<le> a * (1 + c)" using e assms(2) by (intro mult_left_mono) simp_all
  finally have 1: "z \<le> a * (1 + c)" .
  have "a \<le> z * ee ^ 3" using assms(1) by (simp add: rel_close_def)
  also have "\<dots> \<le> z * (1 + c)" using e zp by (intro mult_left_mono) simp_all
  finally have 2: "a \<le> z * (1 + c)" .
  have d1: "a * (1 + c) = a + a * c" by (simp add: algebra_simps)
  have d2: "z * (1 + c) = z + z * c" by (simp add: algebra_simps)
  have "a * (1 + c) \<le> a * 2" using c(2) assms(2) by (intro mult_left_mono) simp_all
  then have "z \<le> a * 2" using 1 by linarith
  then have "z * c \<le> (a * 2) * c" using c(1) by (rule mult_right_mono)
  then have 3: "z * c \<le> a * (2 * c)" by (simp add: mult_ac)
  have 4: "a * c \<le> a * (2 * c)" using c(1) assms(2) by (intro mult_left_mono) simp_all
  have 5: "a * (2 * c) \<le> a * 2 powi (- 48)" using c(3) assms(2) by (intro mult_left_mono) simp_all
  show ?thesis using 1 2 3 4 5 unfolding d1 d2 by linarith
qed

lemma flops_exact:
  assumes "0 < b" "0 < d" "0 < f" "2 * b * d * f \<le> 2 ^ 53"
  shows "dmul (dmul (dmul (Finite 2) (Finite (of_nat b))) (Finite (of_nat d))) (Finite (of_nat f))
       = Finite (of_nat (2 * b * d * f))"
proof -
  have t: "2 * b * d * f \<le> 2 ^ 53" by (rule assms(4))
  have df: "1 \<le> d * f" and f1: "1 \<le> f" using assms by (simp_all add: Suc_le_eq)
  have "2 * b * 1 \<le> 2 * b * (d * f)" using df by (rule mult_le_mono2)
  then have "2 * b \<le> 2 * b * d * f" by (simp only: mult.assoc mult_1_right)
  then have 1: "2 * b \<le> 2 ^ 53" using t by (rule order_trans)
  have "2 * b * d * 1 \<le> 2 * b * d * f" using f1 by (rule mult_le_mono2)
  then have "2 * b * d \<le> 2 * b * d * f" by (simp only: mult_1_right)
  then have 2: "2 * b * d \<le> 2 ^ 53" using t by (rule order_trans)
  have a: "dmul (Finite 2) (Finite (of_nat b)) = Finite (of_nat (2 * b))"
    using dmul_nat[OF 1] by simp
  have b: "dmul (Finite (of_nat (2 * b))) (Finite (of_nat d)) = Finite (of_nat (2 * b * d))"
    using 2 by (rule dmul_nat)
  have c: "dmul (Finite (of_nat (2 * b * d))) (Finite (of_nat f)) = Finite (of_nat (2 * b * d * f))"
    using t by (rule dmul_nat)
  show ?thesis by (simp only: a b c)
qed

text \<open>
  C1 (as amended). For a matrix multiplication whose dimensions \<open>B\<close>, \<open>D\<close> and \<open>F\<close> are
  non-negative integers up to \<open>2^53\<close>, \<open>calculateFLOPs\<close> returns a finite number within a
  relative distance \<open>2^-48\<close> of \<open>2 B D F\<close>, and exactly the integer \<open>2 B D F\<close> when this is
  at most \<open>2^53\<close>: the three products are rounded to binary64. For any other operation
  kind it fails with \<open>UnsupportedOperation\<close>.
\<close>

theorem calculateFLOPs_matmul:
  "(type m = ''matmul'' \<and> shape (lhs m) = [Finite (of_nat b), Finite (of_nat d)]
      \<and> shape (rhs m) = [D', Finite (of_nat f)]
      \<and> b \<le> 2 ^ 53 \<and> d \<le> 2 ^ 53 \<and> f \<le> 2 ^ 53 \<longrightarrow>
      (2 * b * d * f \<le> 2 ^ 53 \<longrightarrow> calculateFLOPs m = Inr (Finite (of_nat (2 * b * d * f))))
    \<and> (\<exists>z. calculateFLOPs m = Inr (Finite z)
          \<and> \<bar>z - of_nat (2 * b * d * f)\<bar> \<le> of_nat (2 * b * d * f) * 2 powi (- 48)))
   \<and> (type m \<noteq> ''matmul'' \<longrightarrow> calculateFLOPs m = Inl UnsupportedOperation)"
proof (intro conjI impI; (elim conjE)?)
  assume t: "type m = ''matmul''"
    and l: "shape (lhs m) = [Finite (of_nat b), Finite (of_nat d)]"
    and r: "shape (rhs m) = [D', Finite (of_nat f)]"
    and n: "b \<le> 2 ^ 53" "d \<le> 2 ^ 53" "f \<le> 2 ^ 53"
  have e: "calculateFLOPs m
      = Inr (dmul (dmul (dmul (Finite 2) (Finite (of_nat b))) (Finite (of_nat d))) (Finite (of_nat f)))"
    by (simp add: calculateFLOPs_def t l r idx_def)
  {
    assume s: "2 * b * d * f \<le> 2 ^ 53"
    show "calculateFLOPs m = Inr (Finite (of_nat (2 * b * d * f)))"
    proof (cases "b = 0 \<or> d = 0 \<or> f = 0")
      case True
      then have z0: "2 * b * d * f = 0" by auto
      show ?thesis unfolding e zero_dim_flops[OF n True] z0 by simp
    next
      case False
      then have "0 < b" "0 < d" "0 < f" by simp_all
      then show ?thesis unfolding e using s by (simp only: flops_exact)
    qed
  }
  show "\<exists>z. calculateFLOPs m = Inr (Finite z)
          \<and> \<bar>z - of_nat (2 * b * d * f)\<bar> \<le> of_nat (2 * b * d * f) * 2 powi (- 48)"
  proof (cases "b = 0 \<or> d = 0 \<or> f = 0")
    case True
    then have z0: "2 * b * d * f = 0" by auto
    show ?thesis unfolding e zero_dim_flops[OF n True] z0 by simp
  next
    case False
    then have p: "1 \<le> b" "1 \<le> d" "1 \<le> f" by simp_all
    note a = flops_approx[OF dim_approx[OF p(1) n(1)] dim_approx[OF p(2) n(2)]
        dim_approx[OF p(3) n(3)]]
    from a obtain z where z: "dmul (dmul (dmul (Finite 2) (Finite (of_nat b))) (Finite (of_nat d)))
        (Finite (of_nat f)) = Finite z" "0 < 2 * of_nat b * of_nat d * (of_nat f :: rat)"
      "rel_close 3 (2 * of_nat b * of_nat d * of_nat f) z"
      by (rule approxD)
    have "\<bar>z - 2 * of_nat b * of_nat d * of_nat f\<bar> \<le> 2 * of_nat b * of_nat d * of_nat f * 2 powi (- 48)"
      using z(3,2) by (rule rel_close_abs)
    then show ?thesis unfolding e z(1) by simp
  qed
next
  assume "type m \<noteq> ''matmul''"
  then show "calculateFLOPs m = Inl UnsupportedOperation" by (simp add: calculateFLOPs_def)
qed

theorem calculateFLOPs_matmul_witness:
  "type (sampleMatrix ''a'' 256 256 256 bf16) = ''matmul''
   \<and> shape (lhs (sampleMatrix ''a'' 256 256 256 bf16)) = [Finite (of_nat 256), Finite (of_nat 256)]
   \<and> shape (rhs (sampleMatrix ''a'' 256 256 256 bf16)) = [Finite 256, Finite (of_nat 256)]
   \<and> (256::nat) \<le> 2 ^ 53 \<and> (2::nat) * 256 * 256 * 256 \<le> 2 ^ 53
   \<and> calculateFLOPs (sampleMatrix ''a'' 256 256 256 bf16) = Inr (Finite 33554432)
   \<and> (\<exists>z. calculateFLOPs (sampleMatrix ''a'' 256 256 256 bf16) = Inr (Finite z)
          \<and> \<bar>z - 33554432\<bar> \<le> 33554432 * 2 powi (- 48))
   \<and> type (newMatrix ''b'' ''conv'' \<lparr> shape = [Finite 2, Finite 3], dtype = fp32 \<rparr>
              \<lparr> shape = [Finite 3, Finite 4], dtype = fp32 \<rparr> fp32) \<noteq> ''matmul''
   \<and> calculateFLOPs (newMatrix ''b'' ''conv'' \<lparr> shape = [Finite 2, Finite 3], dtype = fp32 \<rparr>
              \<lparr> shape = [Finite 3, Finite 4], dtype = fp32 \<rparr> fp32) = Inl UnsupportedOperation"
proof -
  let ?m = "sampleMatrix ''a'' 256 256 256 bf16"
  let ?c = "newMatrix ''b'' ''conv'' \<lparr> shape = [Finite 2, Finite 3], dtype = fp32 \<rparr>
              \<lparr> shape = [Finite 3, Finite 4], dtype = fp32 \<rparr> fp32"
  have h: "type ?m = ''matmul''"
    "shape (lhs ?m) = [Finite (of_nat 256), Finite (of_nat 256)]"
    "shape (rhs ?m) = [Finite 256, Finite (of_nat 256)]"
    "(256::nat) \<le> 2 ^ 53" "(2::nat) * 256 * 256 * 256 \<le> 2 ^ 53"
    by (simp_all add: sample_defs)
  have c: "type ?c \<noteq> ''matmul''" by (simp add: newMatrix_def)
  note t = calculateFLOPs_matmul[of ?m 256 256 "Finite 256" 256]
  note u = calculateFLOPs_matmul[of ?c]
  have 1: "calculateFLOPs ?m = Inr (Finite (of_nat (2 * 256 * 256 * 256)))"
    using t h by blast
  have 2: "\<exists>z. calculateFLOPs ?m = Inr (Finite z)
      \<and> \<bar>z - of_nat (2 * 256 * 256 * 256)\<bar> \<le> of_nat (2 * 256 * 256 * 256) * 2 powi (- 48)"
    using t h by blast
  have 3: "calculateFLOPs ?c = Inl UnsupportedOperation" using u c by blast
  have n: "(of_nat (2 * 256 * 256 * 256) :: rat) = 33554432" by simp
  show ?thesis using h c 1 2 3 unfolding n by (intro conjI)
qed

text \<open>
  For the cube of side 300001 the exact count \<open>2 * 300001^3 = 54000540001800002\<close> is not a
  binary64 number: the last product is rounded and the result is \<open>54000540001800000\<close>.
\<close>

theorem calculateFLOPs_rounding_counterexample:
  "type (sampleMatrix ''a'' 300001 300001 300001 bf16) = ''matmul''
   \<and> shape (lhs (sampleMatrix ''a'' 300001 300001 300001 bf16)) = [Finite 300001, Finite 300001]
   \<and> shape (rhs (sampleMatrix ''a'' 300001 300001 300001 bf16)) = [Finite 300001, Finite 300001]
   \<and> calculateFLOPs (sampleMatrix ''a'' 300001 300001 300001 bf16) = Inr (Finite 54000540001800000)
   \<and> (2::rat) * 300001 * 300001 * 300001 = 54000540001800002
   \<and> calculateFLOPs (sampleMatrix ''a'' 300001 300001 300001 bf16)
       \<noteq> Inr (Finite (2 * 300001 * 300001 * 300001))"
  by (simp add: calculateFLOPs_def sample_defs num_ev)


section \<open>The communication cost and the output bytes\<close>






section \<open>Tiling utilization\<close>

lemma unit_facts:
  assumes "j \<le> 900"
  shows "round_mag (2 ^ j) = 2 ^ j" "(2::rat) ^ j < 2 powi 1024" "(1::rat) \<le> 2 ^ j"
proof -
  show "round_mag (2 ^ j) = 2 ^ j" using round_mag_p2[of "int j"] by simp
  have "int j < 1024" using assms by simp
  then have "(2::rat) powi (int j) < 2 powi 1024" by (simp only: p2_less_iff)
  then show "(2::rat) ^ j < 2 powi 1024" by (simp only: p2_nat)
  show "(1::rat) \<le> 2 ^ j" by simp
qed

lemma round_mag_div_p2:
  assumes "2 powi (- 1022) \<le> w" "2 powi (- 1022) \<le> w / 2 ^ j"
  shows "round_mag (w / 2 ^ j) = round_mag w / 2 ^ j"
proof -
  have e: "w / 2 ^ j = w * 2 powi (- int j)" for w :: rat
    by (simp add: power_int_minus field_simps)
  show ?thesis unfolding e using assms by (intro round_mag_scale) (simp_all only: e)
qed

lemma non_multiple_small:
  assumes "round_mag a = a" "0 < a" "a / 2 ^ j \<noteq> of_int \<lfloor>a / 2 ^ j\<rfloor>"
  shows "a < 2 powi (53 + int j)"
proof (rule ccontr)
  assume "\<not> a < 2 powi (53 + int j)"
  then have "2 powi (53 + int j) \<le> a" by simp
  then have "ilog2 (2 powi (53 + int j)) \<le> ilog2 a" by (intro ilog2_mono) simp_all
  moreover have "ilog2 (2 powi (53 + int j)) = 53 + int j"
  proof (rule ilog2_unique)
    show "(2::rat) powi (53 + int j) \<le> 2 powi (53 + int j)" by (rule order_refl)
    have "53 + int j < 53 + int j + 1" by simp
    then show "(2::rat) powi (53 + int j) < 2 powi (53 + int j + 1)" by (simp only: p2_less_iff)
  qed
  ultimately have "53 + int j \<le> ilog2 a" by simp
  then have e: "1 + int j \<le> expo a" by (simp add: expo_def)
  from round_mag_form[OF assms(2)] obtain m where
    m: "round_mag a = of_int m * 2 powi expo a" by blast
  obtain d where d: "expo a = int j + int d" using e by (metis zle_iff_zadd add.commute add_le_cancel_left le_add_same_cancel1 order_trans zero_le_one)
  have "a = of_int m * (2 ^ j * 2 ^ d)" using m assms(1) d by (simp add: power_int_add)
  then have "a / 2 ^ j = of_int (m * 2 ^ d)" by simp
  then have "a / 2 ^ j = of_int \<lfloor>a / 2 ^ j\<rfloor>" by (metis floor_of_int)
  then show False using assms(3) by simp
qed


lemma tiling_zero_tiles:
  assumes "q \<noteq> 0" "0 < U"
  shows "ddiv (ddiv (Finite q) (signed_zero (q < 0))) (Finite U)
       = ddiv (Finite q) (dmul (signed_zero (q < 0)) (Finite U))"
proof -
  have a: "ddiv (Finite q) (signed_zero (q < 0)) = PosInf"
    using assms(1)
    by (simp add: ddiv_def is_inf_def is_zero_def sign_bit_def signed_zero_def signed_inf_def)
  have b: "dmul (signed_zero (q < 0)) (Finite U) = signed_zero (q < 0)"
    using assms(2)
    by (auto simp: dmul_def is_inf_def sign_bit_def signed_zero_def mag_def val_def fl_zero)
  have c: "ddiv PosInf (Finite U) = PosInf"
    using assms(2) by (simp add: ddiv_def is_inf_def sign_bit_def signed_inf_def)
  show ?thesis by (simp only: a b c)
qed

lemma tiling_one_tile:
  assumes "round_mag \<bar>q\<bar> = \<bar>q\<bar>" "\<bar>q\<bar> < 2 powi 1024" "q \<noteq> 0"
    "round_mag U = U" "U < 2 powi 1024" "0 < U" "k = 1 \<or> k = - 1" "(k < 0) = (q < 0)"
  shows "ddiv (ddiv (Finite q) (Finite k)) (Finite U)
       = ddiv (Finite q) (dmul (Finite k) (Finite U))"
proof -
  have ap: "0 < \<bar>q\<bar>" using assms(3) by simp
  have k: "\<bar>k\<bar> = 1" "k \<noteq> 0" using assms(7) by auto
  have "ddiv (Finite q) (Finite k) = fl False \<bar>q\<bar>"
    using ddiv_finite[OF k(2), of q] assms(8) by (simp add: k)
  also have "\<dots> = Finite \<bar>q\<bar>" using fl_repr[OF assms(1,2) ap, of False] by simp
  finally have a: "ddiv (Finite q) (Finite k) = Finite \<bar>q\<bar>" .
  have "dmul (Finite k) (Finite U) = fl (k < 0) U"
    using assms(6) by (simp add: dmul_finite k abs_of_pos not_less[symmetric] less_imp_le)
  also have "\<dots> = Finite (if k < 0 then - U else U)" using assms(4,5,6) by (rule fl_repr)
  finally have b: "dmul (Finite k) (Finite U) = Finite (if k < 0 then - U else U)" .
  have u: "U \<noteq> 0" using assms(6) by simp
  have "ddiv (Finite \<bar>q\<bar>) (Finite U) = fl False (\<bar>q\<bar> / U)"
    using ddiv_finite[OF u, of "\<bar>q\<bar>"] ap assms(6) by (simp add: abs_of_pos not_less less_imp_le)
  moreover have "ddiv (Finite q) (Finite (if k < 0 then - U else U)) = fl False (\<bar>q\<bar> / U)"
    using ddiv_finite[of "if k < 0 then - U else U" q] assms(6,8) assms(3)
    by (auto simp: abs_of_pos)
  ultimately show ?thesis by (simp only: a b)
qed


lemma fl_cong: "round_mag p = round_mag q \<Longrightarrow> fl neg p = fl neg q"
  by (simp only: fl_def)

lemma tiling_many_tiles:
  fixes q :: rat
  assumes v: "round_mag \<bar>q\<bar> = \<bar>q\<bar>" "\<bar>q\<bar> < 2 powi 1024" and j: "j \<le> 900"
    and big: "2 ^ j < \<bar>q\<bar>" and nm: "\<bar>q\<bar> / 2 ^ j \<noteq> of_int \<lfloor>\<bar>q\<bar> / 2 ^ j\<rfloor>"
  shows "ddiv (Finite q) (Finite (2 ^ j)) = Finite (q / 2 ^ j)"
    and "\<lceil>q / 2 ^ j\<rceil> \<noteq> 0"
    and "ddiv (ddiv (Finite q) (Finite (of_int \<lceil>q / 2 ^ j\<rceil>))) (Finite (2 ^ j))
       = ddiv (Finite q) (dmul (Finite (of_int \<lceil>q / 2 ^ j\<rceil>)) (Finite (2 ^ j)))"
proof -
  define a where "a = \<bar>q\<bar>"
  define U :: rat where "U = 2 ^ j"
  define c where "c = \<lceil>q / U\<rceil>"
  note uf = unit_facts[OF j, folded U_def]
  have Up: "0 < U" "U \<noteq> 0" by (simp_all add: U_def)
  have "(0::rat) < 2 ^ j" by simp
  then have ap: "0 < a" using big unfolding a_def by (rule less_trans)
  have aU: "U < a" using big by (simp add: a_def U_def)
  have qn: "q \<noteq> 0" using ap by (auto simp: a_def)
  have one: "1 < a / U" using aU Up by simp
  have tiny: "(2::rat) powi (- 1022) \<le> 1" by (rule p2_le_one) simp
  have a1: "2 powi (- 1022) \<le> a" using tiny one uf(3) aU by linarith
  have a2: "2 powi (- 1022) \<le> a / U" using tiny one by linarith
  have ra: "round_mag (a / U) = a / U"
    using round_mag_div_p2[of a j] a1 a2 v(1) by (simp add: U_def a_def)
  have "a / U \<le> a" using uf(3) ap Up by (simp add: pos_divide_le_eq)
  then have au: "a / U < 2 powi 1024" using v(2) by (simp add: a_def)
  have "ddiv (Finite q) (Finite U) = fl (q < 0) (a / U)"
    using ddiv_finite[OF Up(2), of q] Up(1) by (simp add: a_def abs_of_pos not_le)
  also have "\<dots> = Finite (if q < 0 then - (a / U) else a / U)"
    using ra au one by (intro fl_repr) simp_all
  also have "\<dots> = Finite (q / U)" by (simp add: a_def)
  finally show "ddiv (Finite q) (Finite (2 ^ j)) = Finite (q / 2 ^ j)" by (simp only: U_def)
  \<comment> \<open>the number of tiles\<close>
  have cb: "of_int c - 1 < q / U" "q / U \<le> of_int c" unfolding c_def by linarith+
  have nint: "q / U \<noteq> of_int c"
  proof
    assume e: "q / U = of_int c"
    have "\<bar>q / U\<bar> = \<bar>of_int c :: rat\<bar>" by (simp only: e)
    then have "a / U = of_int \<bar>c\<bar>" using Up by (simp add: a_def abs_of_pos)
    then have "a / U = of_int \<lfloor>a / U\<rfloor>" by (metis floor_of_int)
    then show False using nm by (simp add: a_def U_def)
  qed
  have small: "a / U < 2 ^ 53"
  proof -
    have "a < 2 powi (53 + int j)" using v(1) ap nm unfolding a_def by (intro non_multiple_small) simp_all
    also have "\<dots> = 2 ^ 53 * U" by (simp add: power_int_add U_def)
    finally show ?thesis using Up by (simp add: pos_divide_less_eq)
  qed
  have call: "((c < 0) = (q < 0)) \<and> c \<noteq> 0 \<and> 1 \<le> \<bar>c\<bar> \<and> \<bar>c\<bar> \<le> 2 ^ 53
          \<and> U / 2 \<le> a / of_int \<bar>c\<bar> \<and> a / of_int \<bar>c\<bar> \<le> 2 * U"
    proof (cases "0 < q")
      case True
      then have qa: "q = a" by (simp add: a_def)
      have "1 < (of_int c :: rat)" using one cb(2) by (simp add: qa)
      then have c2: "2 \<le> c" by linarith
      have "of_int c - 1 < (2 ^ 53 :: rat)" using cb(1) small by (simp add: qa)
      then have "of_int c < (of_int (2 ^ 53 + 1) :: rat)" by simp
      then have "c < 2 ^ 53 + 1" by (simp only: of_int_less_iff)
      then have c53: "c \<le> 2 ^ 53" by linarith
      have cp: "(0::rat) < of_int c" using c2 by simp
      have w2: "a / of_int c \<le> U" using cb(2) cp Up by (simp add: qa field_simps)
      have "U * (of_int c - 1) < a" using cb(1) Up by (simp add: qa field_simps)
      moreover have "U * (of_int c / 2) \<le> U * (of_int c - 1)"
        using c2 Up by (intro mult_left_mono) simp_all
      ultimately have "U / 2 * of_int c \<le> a" by simp
      then have w1: "U / 2 \<le> a / of_int c" using cp by (simp add: pos_le_divide_eq)
      have "\<bar>c\<bar> = c" using c2 by simp
      then show ?thesis
        using True c2 c53 w1 w2 Up by simp
    next
      case False
      then have qneg: "q < 0" using qn by simp
      then have qa: "q = - a" by (simp add: a_def)
      have "(of_int c :: rat) - 1 < - 1" using cb(1) one by (simp add: qa)
      then have "(of_int c :: rat) < 0" by simp
      then have cneg: "c < 0" by simp
      then have c1: "c \<le> - 1" by simp
      define d where "d = - c"
      have d: "1 \<le> d" "\<bar>c\<bar> = d" "c = - d" using c1 by (simp_all add: d_def)
      have dp: "(0::rat) < of_int d" using d(1) by simp
      have lo: "of_int d \<le> a / U" using cb(2) by (simp add: qa d(3))
      have hi: "a / U < of_int d + 1" using cb(1) by (simp add: qa d(3))
      have "(of_int d :: rat) < 2 ^ 53" using lo small by linarith
      then have "(of_int d :: rat) < of_int (2 ^ 53)" by simp
      then have "d < 2 ^ 53" by (simp only: of_int_less_iff)
      then have d53: "d \<le> 2 ^ 53" by simp
      have "U * of_int d \<le> a" using lo Up by (simp add: field_simps)
      then have "U \<le> a / of_int d" using dp by (simp add: pos_le_divide_eq)
      then have w1: "U / 2 \<le> a / of_int d" using Up by linarith
      have "a < U * (of_int d + 1)" using hi Up by (simp add: field_simps)
      moreover have "U * (of_int d + 1) \<le> U * (2 * of_int d)"
        using d(1) Up by (intro mult_left_mono) simp_all
      ultimately have "a \<le> 2 * U * of_int d" by simp
      then have w2: "a / of_int d \<le> 2 * U" using dp by (simp add: pos_divide_le_eq)
      show ?thesis
        using qneg cneg d d53 w1 w2 by (simp del: divide_le_eq_numeral1 le_divide_eq_numeral1)
    qed
  have csign: "(c < 0) = (q < 0)" "c \<noteq> 0" "1 \<le> \<bar>c\<bar>" "\<bar>c\<bar> \<le> 2 ^ 53"
    and wr: "U / 2 \<le> a / of_int \<bar>c\<bar>" "a / of_int \<bar>c\<bar> \<le> 2 * U"
    using call by blast+
  show "\<lceil>q / 2 ^ j\<rceil> \<noteq> 0" using csign(2) by (simp add: c_def U_def)
  define w where "w = a / of_int \<bar>c\<bar>"
  define R where "R = round_mag w"
  have cp: "(0::rat) < of_int \<bar>c\<bar>" using csign(3) by simp
  have half: "(1::rat) / 2 \<le> U / 2" using uf(3) by simp
  have "(2::rat) powi (- 1022) \<le> 2 powi (- 1)" by (simp only: p2_le_iff)
  then have tiny2: "(2::rat) powi (- 1022) \<le> 1 / 2" by simp
  have w1: "2 powi (- 1022) \<le> w" unfolding w_def using wr(1) tiny2 half by linarith
  have w2: "w \<le> 2 powi 1023"
  proof -
    have "w \<le> 2 * U" using wr(2) by (simp add: w_def)
    also have "\<dots> = 2 powi (1 + int j)" by (simp add: U_def power_int_add)
    also have "\<dots> \<le> 2 powi 1023" using j by (simp only: p2_le_iff)
    finally show ?thesis .
  qed
  note fw = fl_normal[OF w1 w2, folded R_def]
  have Rh: "U / 2 \<le> R"
  proof -
    have "round_mag (U / 2) \<le> round_mag w" using wr(1) unfolding w_def by (rule round_mag_mono)
    moreover have "U / 2 = 2 powi (int j - 1)" by (simp add: U_def power_int_diff)
    moreover have "round_mag (2 powi (int j - 1)) = 2 powi (int j - 1)"
      by (rule round_mag_p2) simp
    ultimately show ?thesis by (simp add: R_def)
  qed
  have Rp: "0 < R" using Rh Up by linarith
  have hU: "(U / 2) / U = 1 / 2" using Up(2) by simp
  have Ri: "round_mag R = R" unfolding R_def by (rule round_mag_idem)
  have RU1: "2 powi (- 1022) \<le> R / U"
  proof -
    have "(U / 2) / U \<le> R / U" using Rh Up(1) by (intro divide_right_mono) simp_all
    then have "1 / 2 \<le> R / U" unfolding hU .
    then show ?thesis using tiny2 by linarith
  qed
  have wU1: "2 powi (- 1022) \<le> w / U"
  proof -
    have "U / 2 \<le> w" using wr(1) by (simp only: w_def)
    then have "(U / 2) / U \<le> w / U" using Up(1) by (intro divide_right_mono) simp_all
    then have "1 / 2 \<le> w / U" unfolding hU .
    then show ?thesis using tiny2 by linarith
  qed
  have rR: "round_mag (R / U) = R / U"
    using round_mag_div_p2[of R j] fw(2) RU1 Ri by (simp add: U_def)
  have rw: "round_mag (w / U) = R / U"
    using round_mag_div_p2[of w j] w1 wU1 by (simp add: U_def R_def)
  \<comment> \<open>left side\<close>
  have cz: "(of_int c :: rat) \<noteq> 0" using csign(2) by simp
  have "ddiv (Finite q) (Finite (of_int c)) = fl False w"
    using ddiv_finite[OF cz, of q] csign(1) by (simp add: w_def a_def)
  then have l1: "ddiv (Finite q) (Finite (of_int c)) = Finite R" using fw(1)[of False] by simp
  have l2: "ddiv (Finite R) (Finite U) = fl False (R / U)"
    using ddiv_finite[OF Up(2), of R] Rp Up(1) by (simp add: abs_of_pos not_less less_imp_le)
  \<comment> \<open>right side\<close>
  have cu: "of_int \<bar>c\<bar> * U < 2 powi 1024"
  proof -
    have "(of_int \<bar>c\<bar> :: rat) \<le> of_int (2 ^ 53)" using csign(4) by (simp only: of_int_le_iff)
    then have "of_int \<bar>c\<bar> * U \<le> 2 ^ 53 * U" using Up by (intro mult_right_mono) simp_all
    also have "\<dots> = 2 powi (53 + int j)" by (simp add: U_def power_int_add)
    also have "\<dots> < 2 powi 1024" using j by (simp only: p2_less_iff)
    finally show ?thesis .
  qed
  have cr: "round_mag (of_int \<bar>c\<bar> * U) = of_int \<bar>c\<bar> * U"
    using round_mag_repr[of "\<bar>c\<bar>" "int j"] csign(4) by (simp add: U_def)
  have cUp: "0 < of_int \<bar>c\<bar> * U" using cp Up by simp
  have "dmul (Finite (of_int c)) (Finite U) = fl (c < 0) (of_int \<bar>c\<bar> * U)"
    using Up(1) by (simp add: dmul_finite abs_of_pos not_le)
  also have "\<dots> = Finite (if c < 0 then - (of_int \<bar>c\<bar> * U) else of_int \<bar>c\<bar> * U)"
    using cr cu cUp by (rule fl_repr)
  finally have r1: "dmul (Finite (of_int c)) (Finite U)
      = Finite (if c < 0 then - (of_int \<bar>c\<bar> * U) else of_int \<bar>c\<bar> * U)" .
  have nz: "(if c < 0 then - (of_int \<bar>c\<bar> * U) else of_int \<bar>c\<bar> * U) \<noteq> (0::rat)"
    using csign(2) Up(2) by simp
  have r2: "ddiv (Finite q) (Finite (if c < 0 then - (of_int \<bar>c\<bar> * U) else of_int \<bar>c\<bar> * U))
      = fl False (w / U)"
    using ddiv_finite[OF nz, of q] csign(1) cUp
    by (auto simp: w_def a_def abs_mult abs_of_pos[OF Up(1)])
  have fe: "fl False (R / U) = fl False (w / U)" by (rule fl_cong) (simp only: rR rw)
  have "ddiv (ddiv (Finite q) (Finite (of_int c))) (Finite U)
       = ddiv (Finite q) (dmul (Finite (of_int c)) (Finite U))"
    by (simp only: l1 l2 r1 r2 fe)
  then show "ddiv (ddiv (Finite q) (Finite (of_int \<lceil>q / 2 ^ j\<rceil>))) (Finite (2 ^ j))
       = ddiv (Finite q) (dmul (Finite (of_int \<lceil>q / 2 ^ j\<rceil>)) (Finite (2 ^ j)))"
    by (simp only: c_def U_def)
qed


lemma integral_abs:
  fixes x :: rat
  shows "of_int \<lfloor>\<bar>x\<bar>\<rfloor> = \<bar>x\<bar> \<longleftrightarrow> of_int \<lfloor>x\<rfloor> = x"
proof -
  have a: "of_int \<lfloor>y\<rfloor> = y \<longleftrightarrow> y \<in> \<int>" for y :: rat
    by (metis Ints_of_int floor_of_int Ints_cases)
  have "\<bar>x\<bar> \<in> \<int> \<longleftrightarrow> x \<in> \<int>"
  proof
    assume i: "\<bar>x\<bar> \<in> \<int>"
    show "x \<in> \<int>"
    proof (cases "0 \<le> x")
      case True then show ?thesis using i by simp
    next
      case False
      then have "x = - \<bar>x\<bar>" by simp
      then show ?thesis using i by (metis Ints_minus)
    qed
  next
    assume "x \<in> \<int>"
    then show "\<bar>x\<bar> \<in> \<int>" by (rule Ints_abs)
  qed
  then show ?thesis by (simp only: a)
qed

lemma drem_multiple:
  assumes "0 < U"
  shows "deq (drem (Finite q) (Finite U)) (Finite 0) \<longleftrightarrow> of_int \<lfloor>q / U\<rfloor> = q / U"
proof (cases "q = 0")
  case True
  then show ?thesis using assms
    by (simp add: drem_def is_inf_def is_zero_def deq_finite)
next
  case False
  define r where "r = \<bar>q\<bar> - U * of_int \<lfloor>\<bar>q\<bar> / U\<rfloor>"
  have d: "drem (Finite q) (Finite U)
      = (if r = 0 then signed_zero (q < 0) else Finite (if q < 0 then - r else r))"
    using False assms
    by (simp add: drem_def is_inf_def is_zero_def mag_def val_def sign_bit_def Let_def r_def
        abs_of_pos)
  have z: "deq (drem (Finite q) (Finite U)) (Finite 0) \<longleftrightarrow> r = 0"
    unfolding d by (auto simp: deq_Finite signed_zero_def)
  have "r = 0 \<longleftrightarrow> of_int \<lfloor>\<bar>q\<bar> / U\<rfloor> = \<bar>q\<bar> / U"
    using assms by (auto simp: r_def field_simps)
  also have "\<dots> \<longleftrightarrow> of_int \<lfloor>\<bar>q / U\<bar>\<rfloor> = \<bar>q / U\<bar>" using assms by (simp add: abs_of_pos)
  also have "\<dots> \<longleftrightarrow> of_int \<lfloor>q / U\<rfloor> = q / U" by (rule integral_abs)
  finally show ?thesis using z by simp
qed

lemma dceil_signed_zero: "dceil (signed_zero s) = signed_zero s"
  by (simp add: dceil_def signed_zero_def)

lemma tiling_few_tiles:
  fixes q :: rat
  assumes v: "round_mag \<bar>q\<bar> = \<bar>q\<bar>" "\<bar>q\<bar> < 2 powi 1024" and j: "j \<le> 900"
    and small: "\<bar>q\<bar> < 2 ^ j" and qn: "q \<noteq> 0"
  shows "ddiv (ddiv (Finite q) (dceil (ddiv (Finite q) (Finite (2 ^ j))))) (Finite (2 ^ j))
       = ddiv (Finite q) (dmul (dceil (ddiv (Finite q) (Finite (2 ^ j)))) (Finite (2 ^ j)))"
proof -
  define U :: rat where "U = 2 ^ j"
  define y where "y = \<bar>q\<bar> / U"
  note uf = unit_facts[OF j, folded U_def]
  have Up: "0 < U" "U \<noteq> 0" by (simp_all add: U_def)
  have y: "0 < y" "y \<le> 1" using small qn Up by (simp_all add: y_def U_def)
  have d: "ddiv (Finite q) (Finite U) = fl (q < 0) y"
    using ddiv_finite[OF Up(2), of q] Up(1) by (simp add: y_def abs_of_pos not_le)
  have "round_mag y \<le> round_mag (2 powi 0)" using y(2) by (intro round_mag_mono) simp
  moreover have "round_mag (2 powi 0) = 2 powi 0" by (rule round_mag_p2) simp
  ultimately have r1: "round_mag y \<le> 1" by simp
  have "(2::rat) powi 0 < 2 powi 1024" by (simp only: p2_less_iff)
  then have one: "(1::rat) < 2 powi 1024" by simp
  have main: "ddiv (ddiv (Finite q) (dceil (ddiv (Finite q) (Finite U)))) (Finite U)
       = ddiv (Finite q) (dmul (dceil (ddiv (Finite q) (Finite U))) (Finite U))"
  proof (cases y "q < 0" rule: fl_cases)
    case inf
    have False using inf(1) r1 one by linarith
    then show ?thesis ..
  next
    case zero
    show ?thesis unfolding d zero(2) dceil_signed_zero using qn Up(1) by (rule tiling_zero_tiles)
  next
    case fin
    define Y where "Y = round_mag y"
    have Y: "0 < Y" "Y \<le> 1" using fin(1) r1 by (simp_all add: Y_def)
    show ?thesis
    proof (cases "q < 0")
      case False
      then have f: "fl (q < 0) y = Finite Y" using fin(3) by (simp add: Y_def)
      have "\<lceil>Y\<rceil> = 1" using Y by (simp add: ceiling_eq_iff)
      then have c: "dceil (Finite Y) = Finite 1" by (simp add: dceil_def)
      show ?thesis unfolding d f c
        using v qn uf(1,2) Up(1) False by (intro tiling_one_tile) simp_all
    next
      case True
      then have f: "fl (q < 0) y = Finite (- Y)" using fin(3) by (simp add: Y_def)
      show ?thesis
      proof (cases "Y = 1")
        case True
        have ce: "\<lceil>- 1 :: rat\<rceil> = - 1" by (metis ceiling_of_int of_int_1 of_int_minus)
        have c: "dceil (Finite (- Y)) = Finite (- 1)" by (simp add: dceil_def True ce)
        show ?thesis unfolding d f c
          using v qn uf(1,2) Up(1) \<open>q < 0\<close> by (intro tiling_one_tile) simp_all
      next
        case False
        then have "\<lceil>- Y\<rceil> = 0" using Y by (simp add: ceiling_eq_iff)
        then have c: "dceil (Finite (- Y)) = signed_zero (q < 0)"
          using Y(1) \<open>q < 0\<close> by (simp add: dceil_def)
        show ?thesis unfolding d f c using qn Up(1) by (rule tiling_zero_tiles)
      qed
    qed
  qed
  then show ?thesis by (simp only: U_def)
qed

lemma tiling_assoc:
  fixes q :: rat
  assumes v: "is_binary64 (Finite q)" and j: "j \<le> 900"
    and nm: "of_int \<lfloor>q / 2 ^ j\<rfloor> \<noteq> q / 2 ^ j"
  shows "ddiv (ddiv (Finite q) (dceil (ddiv (Finite q) (Finite (2 ^ j))))) (Finite (2 ^ j))
       = ddiv (Finite q) (dmul (dceil (ddiv (Finite q) (Finite (2 ^ j)))) (Finite (2 ^ j)))"
proof -
  have r: "round_mag \<bar>q\<bar> = \<bar>q\<bar>" "\<bar>q\<bar> < 2 powi 1024" using v by (simp_all add: is_binary64_def)
  have qn: "q \<noteq> 0" using nm by auto
  have na: "\<bar>q\<bar> / 2 ^ j \<noteq> of_int \<lfloor>\<bar>q\<bar> / 2 ^ j\<rfloor>"
  proof
    assume "\<bar>q\<bar> / 2 ^ j = of_int \<lfloor>\<bar>q\<bar> / 2 ^ j\<rfloor>"
    then have "of_int \<lfloor>\<bar>q / 2 ^ j\<bar>\<rfloor> = \<bar>q / 2 ^ j\<bar>" by simp
    then have "of_int \<lfloor>q / 2 ^ j\<rfloor> = q / 2 ^ j" by (simp only: integral_abs)
    then show False using nm by simp
  qed
  have ne: "\<bar>q\<bar> \<noteq> 2 ^ j"
  proof
    assume "\<bar>q\<bar> = 2 ^ j"
    then have "\<bar>q\<bar> / 2 ^ j = 1" by simp
    then show False using na by simp
  qed
  consider "\<bar>q\<bar> < 2 ^ j" | "2 ^ j < \<bar>q\<bar>" using ne by linarith
  then show ?thesis
  proof cases
    case 1
    show ?thesis using r j 1 qn by (rule tiling_few_tiles)
  next
    case 2
    note t = tiling_many_tiles[OF r j 2 na]
    have c: "dceil (Finite (q / 2 ^ j)) = Finite (of_int \<lceil>q / 2 ^ j\<rceil>)"
      using t(2) by (simp add: dceil_def)
    show ?thesis unfolding t(1) c by (rule t(3))
  qed
qed

lemma tilingUtilization_refines:
  assumes "is_binary64 (Finite q)" "j \<le> 900"
  shows "tilingUtilization (Finite q) (Finite (2 ^ j)) = tilingUtilization_spec q (2 ^ j)"
proof (cases "of_int \<lfloor>q / 2 ^ j\<rfloor> = q / 2 ^ j")
  case True
  then show ?thesis
    by (simp add: tilingUtilization_def tilingUtilization_spec_def drem_multiple)
next
  case False
  then show ?thesis
    using tiling_assoc[OF assms False]
    by (simp add: tilingUtilization_def tilingUtilization_spec_def drem_multiple)
qed


lemma is_binary64_nat:
  assumes "n \<le> 2 ^ 53"
  shows "is_binary64 (Finite (of_nat n))"
proof -
  have "int n \<le> 2 ^ 53" using assms by (metis of_nat_le_iff of_nat_numeral of_nat_power)
  then have r: "round_mag (of_int (int n) * 2 powi 0) = of_int (int n) * 2 powi 0"
    by (intro round_mag_repr) simp_all
  have "(of_nat n :: rat) \<le> of_nat (2 ^ 53)" using assms by (simp only: of_nat_le_iff)
  then have "(of_nat n :: rat) \<le> 2 powi 53" by simp
  moreover have "(2::rat) powi 53 < 2 powi 1024" by (simp only: p2_less_iff)
  ultimately have "(of_nat n :: rat) < 2 powi 1024" by (rule le_less_trans)
  then show ?thesis using r by (simp add: is_binary64_def)
qed

lemma tiling_units:
  assumes "is_binary64 (Finite q)"
  shows "tilingUtilization (Finite q) (Finite 128) = tilingUtilization_spec q 128"
    and "tilingUtilization (Finite q) (Finite 4) = tilingUtilization_spec q 4"
    and "tilingUtilization (Finite q) (Finite 16) = tilingUtilization_spec q 16"
  using tilingUtilization_refines[OF assms, of 7] tilingUtilization_refines[OF assms, of 2]
    tilingUtilization_refines[OF assms, of 4]
  by simp_all

lemma ceiling_numeral_divide:
  "\<lceil>numeral a / numeral b :: rat\<rceil> = - ((- numeral a) div numeral b)"
proof -
  have "\<lfloor>of_int (- numeral a) / of_int (numeral b) :: rat\<rfloor> = (- numeral a) div numeral b"
    by (rule floor_divide_of_int_eq)
  then have "\<lfloor>- (numeral a / numeral b) :: rat\<rfloor> = (- numeral a) div numeral b" by simp
  then show ?thesis by (simp only: ceiling_def)
qed

lemma tiling_100:
  "tilingUtilization (Finite 100) (Finite 128) = Finite (25 / 32)"
  "dlt (Finite (25 / 32)) (lit (9 / 10))"
  "lit (9 / 10) = Finite (8106479329266893 / 9007199254740992)"
proof -
  have 1: "drem (Finite 100) (Finite 128) = Finite 100" by (simp add: num_ev)
  have 2: "ddiv (Finite 100) (Finite 128) = Finite (25 / 32)" by (simp add: num_ev)
  have 3: "dceil (Finite (25 / 32)) = Finite 1" by (simp add: num_ev ceiling_numeral_divide)
  have 4: "ddiv (ddiv (Finite 100) (Finite 1)) (Finite 128) = Finite (25 / 32)"
    by (simp add: num_ev)
  have 5: "\<not> deq (Finite 100) (Finite 0)" by (simp add: deq_finite)
  show "tilingUtilization (Finite 100) (Finite 128) = Finite (25 / 32)"
    by (simp only: tilingUtilization_def 1 2 3 4 5 if_False)
  show l: "lit (9 / 10) = Finite (8106479329266893 / 9007199254740992)" by (simp add: num_ev)
  show "dlt (Finite (25 / 32)) (lit (9 / 10))" unfolding l by (simp add: num_ev)
qed

lemma padding_recommended:
  assumes "dlt (lhsUtilization (mxuUtilization s)) (lit (9 / 10))"
  shows "''Consider padding matrix dimensions to multiples of MXU dimensions (128x128) to improve hardware utilization.'' \<in> set (TPUv5e_generateRecommendations m s)"
  using assms by (simp add: TPUv5e_generateRecommendations_def Let_def)


section \<open>Tiling utilization of both profiles\<close>

text \<open>
  C4. For every operation whose dimensions are binary64 numbers, each tiling utilization
  of both profiles is 1 when the dimension is an exact multiple of the tiling unit of its
  axis (128 on the TPU; 4, 4 and 16 on the H100), and otherwise the binary64 value of
  \<^verbatim>\<open>dim / (ceil(dim / unit) * unit)\<close>: the code divides by the tile count and then by the
  unit, which gives the same number because the unit is a power of two. With 100 rows
  on the TPU the analysis succeeds, \<open>lhsUtilization\<close> is \<open>100 / 128 = 0.78125\<close>, this is
  below the threshold \<open>0.9\<close>, and the recommendations contain the padding message.
\<close>

theorem tiling_utilization:
  "(TPUv5e_calculateSingleNodeMetrics m = Inr s
      \<and> shape (lhs m) = [Finite b, Finite d] \<and> shape (rhs m) = [D', Finite f]
      \<and> is_binary64 (Finite b) \<and> is_binary64 (Finite d) \<and> is_binary64 (Finite f) \<longrightarrow>
      lhsUtilization (mxuUtilization s) = tilingUtilization_spec b 128
    \<and> rhsUtilizationRows (mxuUtilization s) = tilingUtilization_spec d 128
    \<and> rhsUtilizationCols (mxuUtilization s) = tilingUtilization_spec f 128)
   \<and> (H100_calculateSingleNodeMetrics m = Inr g
      \<and> shape (lhs m) = [Finite b, Finite d] \<and> shape (rhs m) = [D', Finite f]
      \<and> is_binary64 (Finite b) \<and> is_binary64 (Finite d) \<and> is_binary64 (Finite f) \<longrightarrow>
      mUtilization (tensorCoreUtilization g) = tilingUtilization_spec b 4
    \<and> nUtilization (tensorCoreUtilization g) = tilingUtilization_spec f 4
    \<and> kUtilization (tensorCoreUtilization g) = tilingUtilization_spec d 16)
   \<and> tilingUtilization_spec 100 128 = Finite (25 / 32)
   \<and> (find (\<lambda>m. id' m = i) ms = Some m \<and> type m = ''matmul''
        \<and> idx (shape (lhs m)) 0 = Finite 100 \<longrightarrow>
        (\<exists>t r c. TPUv5e_analyze pow ms i = Some (Inr (t, r, c))
           \<and> lhsUtilization (mxuUtilization t) = Finite (25 / 32)
           \<and> dlt (lhsUtilization (mxuUtilization t)) (lit (9 / 10))
           \<and> ''Consider padding matrix dimensions to multiples of MXU dimensions (128x128) to improve hardware utilization.'' \<in> set r))"
proof (intro conjI impI; (elim conjE)?)
  assume s: "TPUv5e_calculateSingleNodeMetrics m = Inr s"
    and sh: "shape (lhs m) = [Finite b, Finite d]" "shape (rhs m) = [D', Finite f]"
    and v: "is_binary64 (Finite b)" "is_binary64 (Finite d)" "is_binary64 (Finite f)"
  note u = TPUv5e_single_fields(8)[OF s]
  show "lhsUtilization (mxuUtilization s) = tilingUtilization_spec b 128"
    by (simp add: u sh idx_def tiling_units(1)[OF v(1)])
  show "rhsUtilizationRows (mxuUtilization s) = tilingUtilization_spec d 128"
    by (simp add: u sh idx_def tiling_units(1)[OF v(2)])
  show "rhsUtilizationCols (mxuUtilization s) = tilingUtilization_spec f 128"
    by (simp add: u sh idx_def tiling_units(1)[OF v(3)])
next
  assume g: "H100_calculateSingleNodeMetrics m = Inr g"
    and sh: "shape (lhs m) = [Finite b, Finite d]" "shape (rhs m) = [D', Finite f]"
    and v: "is_binary64 (Finite b)" "is_binary64 (Finite d)" "is_binary64 (Finite f)"
  note u = H100_single_fields(8)[OF g]
  show "mUtilization (tensorCoreUtilization g) = tilingUtilization_spec b 4"
    by (simp add: u sh idx_def tiling_units(2)[OF v(1)])
  show "nUtilization (tensorCoreUtilization g) = tilingUtilization_spec f 4"
    by (simp add: u sh idx_def tiling_units(2)[OF v(3)])
  show "kUtilization (tensorCoreUtilization g) = tilingUtilization_spec d 16"
    by (simp add: u sh idx_def tiling_units(3)[OF v(2)])
next
  have "is_binary64 (Finite (of_nat 100))" by (rule is_binary64_nat) simp
  then have "is_binary64 (Finite 100)" by simp
  then show "tilingUtilization_spec 100 128 = Finite (25 / 32)"
    using tiling_units(1)[of 100] by (simp add: tiling_100(1))
next
  assume f: "find (\<lambda>m. id' m = i) ms = Some m" and t: "type m = ''matmul''"
    and b: "idx (shape (lhs m)) 0 = Finite 100"
  obtain s where s: "TPUv5e_calculateSingleNodeMetrics m = Inr s"
    using TPUv5e_single_ok[OF t] by blast
  obtain c where c: "TPUv5e_generateRooflineData pow m s = Some c"
    using generateRooflineData_count
    by (metis TPUv5e_generateRooflineData_def)
  have a: "TPUv5e_analyze pow ms i = Some (Inr (s, TPUv5e_generateRecommendations m s, c))"
    by (simp add: TPUv5e_analyze_def f s c)
  have u: "lhsUtilization (mxuUtilization s) = Finite (25 / 32)"
    by (simp add: TPUv5e_single_fields(8)[OF s] b tiling_100(1))
  have l: "dlt (lhsUtilization (mxuUtilization s)) (lit (9 / 10))"
    unfolding u by (rule tiling_100(2))
  show "\<exists>t r c. TPUv5e_analyze pow ms i = Some (Inr (t, r, c))
           \<and> lhsUtilization (mxuUtilization t) = Finite (25 / 32)
           \<and> dlt (lhsUtilization (mxuUtilization t)) (lit (9 / 10))
           \<and> ''Consider padding matrix dimensions to multiples of MXU dimensions (128x128) to improve hardware utilization.'' \<in> set r"
    using a u l padding_recommended[OF l, of m] by blast
qed


lemma tiling_spec_values:
  "tilingUtilization_spec 256 128 = Finite 1"
  "tilingUtilization_spec 250 128 = Finite (125 / 128)"
  "tilingUtilization_spec 100 4 = Finite 1"
  "tilingUtilization_spec 250 4 = Finite (558482096648127 / 562949953421312)"
  "tilingUtilization_spec 256 16 = Finite 1"
proof -
  show "tilingUtilization_spec 256 128 = Finite 1" "tilingUtilization_spec 100 4 = Finite 1"
    "tilingUtilization_spec 256 16 = Finite 1"
    by (simp_all add: tilingUtilization_spec_def)
  have n1: "of_int \<lfloor>250 / 128 :: rat\<rfloor> \<noteq> (250 / 128 :: rat)"
    by (simp add: floor_numeral_divide)
  have a1: "ddiv (Finite 250) (Finite 128) = Finite (125 / 64)" by (simp add: num_ev)
  have a2: "dceil (Finite (125 / 64)) = Finite 2" by (simp add: num_ev ceiling_numeral_divide)
  have a3: "dmul (Finite 2) (Finite 128) = Finite 256" by (simp add: num_ev)
  have a4: "ddiv (Finite 250) (Finite 256) = Finite (125 / 128)" by (simp add: num_ev)
  show "tilingUtilization_spec 250 128 = Finite (125 / 128)"
    by (simp only: tilingUtilization_spec_def n1 a1 a2 a3 a4 if_False)
  have n2: "of_int \<lfloor>250 / 4 :: rat\<rfloor> \<noteq> (250 / 4 :: rat)"
    by (simp add: floor_numeral_divide)
  have b1: "ddiv (Finite 250) (Finite 4) = Finite (125 / 2)" by (simp add: num_ev)
  have b2: "dceil (Finite (125 / 2)) = Finite 63" by (simp add: num_ev ceiling_numeral_divide)
  have b3: "dmul (Finite 63) (Finite 4) = Finite 252" by (simp add: num_ev)
  have b4: "ddiv (Finite 250) (Finite 252) = Finite (558482096648127 / 562949953421312)"
    by (simp add: num_ev)
  show "tilingUtilization_spec 250 4 = Finite (558482096648127 / 562949953421312)"
    by (simp only: tilingUtilization_spec_def n2 b1 b2 b3 b4 if_False)
qed

theorem tiling_utilization_witness:
  "TPUv5e_calculateSingleNodeMetrics (sampleMatrix ''a'' 100 256 250 bf16)
     = Inr (projr (TPUv5e_calculateSingleNodeMetrics (sampleMatrix ''a'' 100 256 250 bf16)))
   \<and> H100_calculateSingleNodeMetrics (sampleMatrix ''a'' 100 256 250 bf16)
     = Inr (projr (H100_calculateSingleNodeMetrics (sampleMatrix ''a'' 100 256 250 bf16)))
   \<and> shape (lhs (sampleMatrix ''a'' 100 256 250 bf16)) = [Finite 100, Finite 256]
   \<and> shape (rhs (sampleMatrix ''a'' 100 256 250 bf16)) = [Finite 256, Finite 250]
   \<and> is_binary64 (Finite 100) \<and> is_binary64 (Finite 256) \<and> is_binary64 (Finite 250)
   \<and> mxuUtilization (projr (TPUv5e_calculateSingleNodeMetrics (sampleMatrix ''a'' 100 256 250 bf16)))
       = \<lparr> lhsUtilization = Finite (25 / 32), rhsUtilizationRows = Finite 1,
           rhsUtilizationCols = Finite (125 / 128) \<rparr>
   \<and> tensorCoreUtilization (projr (H100_calculateSingleNodeMetrics (sampleMatrix ''a'' 100 256 250 bf16)))
       = \<lparr> mUtilization = Finite 1,
           nUtilization = Finite (558482096648127 / 562949953421312),
           kUtilization = Finite 1 \<rparr>
   \<and> find (\<lambda>m. id' m = ''a'') [sampleMatrix ''a'' 100 256 250 bf16]
       = Some (sampleMatrix ''a'' 100 256 250 bf16)
   \<and> type (sampleMatrix ''a'' 100 256 250 bf16) = ''matmul''
   \<and> idx (shape (lhs (sampleMatrix ''a'' 100 256 250 bf16))) 0 = Finite 100
   \<and> (\<exists>t r c. TPUv5e_analyze (\<lambda>x y. NaN) [sampleMatrix ''a'' 100 256 250 bf16] ''a''
                  = Some (Inr (t, r, c))
          \<and> lhsUtilization (mxuUtilization t) = Finite (25 / 32)
          \<and> dlt (lhsUtilization (mxuUtilization t)) (lit (9 / 10))
          \<and> ''Consider padding matrix dimensions to multiples of MXU dimensions (128x128) to improve hardware utilization.'' \<in> set r)"
proof -
  let ?m = "sampleMatrix ''a'' 100 256 250 bf16"
  let ?s = "projr (TPUv5e_calculateSingleNodeMetrics ?m)"
  let ?g = "projr (H100_calculateSingleNodeMetrics ?m)"
  have t: "type ?m = ''matmul''" by (rule sample_type)
  have s: "TPUv5e_calculateSingleNodeMetrics ?m = Inr ?s" using t by (rule TPUv5e_single_projr)
  have g: "H100_calculateSingleNodeMetrics ?m = Inr ?g" using t by (rule H100_single_projr)
  have sh: "shape (lhs ?m) = [Finite 100, Finite 256]" "shape (rhs ?m) = [Finite 256, Finite 250]"
    by (simp_all add: sample_defs)
  have "is_binary64 (Finite (of_nat 100))" "is_binary64 (Finite (of_nat 256))"
    "is_binary64 (Finite (of_nat 250))"
    by (rule is_binary64_nat, simp)+
  then have v: "is_binary64 (Finite 100)" "is_binary64 (Finite 256)" "is_binary64 (Finite 250)"
    by simp_all
  have f: "find (\<lambda>m. id' m = ''a'') [?m] = Some ?m" by (simp add: sample_defs)
  have b: "idx (shape (lhs ?m)) 0 = Finite 100" by (simp add: sample_defs)
  note u = tiling_utilization[of ?m ?s 100 256 "Finite 256" 250 ?g "''a''" "[?m]" "\<lambda>x y. NaN"]
  have u1: "lhsUtilization (mxuUtilization ?s) = tilingUtilization_spec 100 128
      \<and> rhsUtilizationRows (mxuUtilization ?s) = tilingUtilization_spec 256 128
      \<and> rhsUtilizationCols (mxuUtilization ?s) = tilingUtilization_spec 250 128"
    using u s sh v by blast
  have u2: "mUtilization (tensorCoreUtilization ?g) = tilingUtilization_spec 100 4
      \<and> nUtilization (tensorCoreUtilization ?g) = tilingUtilization_spec 250 4
      \<and> kUtilization (tensorCoreUtilization ?g) = tilingUtilization_spec 256 16"
    using u g sh v by blast
  have u3: "tilingUtilization_spec 100 128 = Finite (25 / 32)" using u by blast
  have u4: "\<exists>t r c. TPUv5e_analyze (\<lambda>x y. NaN) [?m] ''a'' = Some (Inr (t, r, c))
          \<and> lhsUtilization (mxuUtilization t) = Finite (25 / 32)
          \<and> dlt (lhsUtilization (mxuUtilization t)) (lit (9 / 10))
          \<and> ''Consider padding matrix dimensions to multiples of MXU dimensions (128x128) to improve hardware utilization.'' \<in> set r"
    using u f t b by blast
  have m1: "mxuUtilization ?s = \<lparr> lhsUtilization = Finite (25 / 32), rhsUtilizationRows = Finite 1,
           rhsUtilizationCols = Finite (125 / 128) \<rparr>"
    using u1 by (simp add: u3 tiling_spec_values)
  have m2: "tensorCoreUtilization ?g = \<lparr> mUtilization = Finite 1,
           nUtilization = Finite (558482096648127 / 562949953421312),
           kUtilization = Finite 1 \<rparr>"
    using u2 by (simp add: tiling_spec_values)
  show ?thesis using s g sh v m1 m2 f t b u4 by (intro conjI)
qed


end
